theory Spec2Isabelle
  imports Complex_Main "HOL-Library.Word" "HOL-Library.Sublist"
begin

section \<open>Query cost estimation\<close>

text \<open>
  Modelled from the spec: the cost estimator (\<^verbatim>\<open>query/plan/cost_estimator.hpp\<close>) is not
  among the sources; only its unit tests are
  (\<^verbatim>\<open>tests/macro_benchmark/clients/card_fraud_client.cpp\<close>, second document).  The
  constants \<^verbatim>\<open>CostParam\<close>, \<^verbatim>\<open>CardParam\<close> and \<^verbatim>\<open>MiscParam\<close> are therefore parameters.
\<close>

record CostParam =
  kScanAll :: real
  kScanAllByLabel :: real
  MakeScanAllByLabelPropertyValue :: real
  MakeScanAllByLabelPropertyRange :: real
  kExpand :: real
  kExpandVariable :: real
  kExpandBreadthFirst :: real
  kFilter :: real
  kExpandUniquenessFilter :: real
  kUnwind :: real

record CardParam =
  card_kExpand :: real
  card_kExpandVariable :: real
  card_kExpandBreadthFirst :: real
  card_kFilter :: real
  card_kExpandUniquenessFilter :: real

record MiscParam =
  kUnwindNoLiteral :: real

record Params =
  cost_param :: CostParam
  card_param :: CardParam
  misc_param :: MiscParam

text \<open>
  Modelled from the spec: section 4.4 requires every cost constant and every cardinality
  multiplier to be strictly positive and the filter multiplier to be strictly below one.
\<close>

definition valid_params :: "Params \<Rightarrow> bool" where
  "valid_params P \<longleftrightarrow>
     0 < kScanAll (cost_param P) \<and> 0 < kScanAllByLabel (cost_param P) \<and>
     0 < MakeScanAllByLabelPropertyValue (cost_param P) \<and>
     0 < MakeScanAllByLabelPropertyRange (cost_param P) \<and>
     0 < kExpand (cost_param P) \<and> 0 < kExpandVariable (cost_param P) \<and>
     0 < kExpandBreadthFirst (cost_param P) \<and> 0 < kFilter (cost_param P) \<and>
     0 < kExpandUniquenessFilter (cost_param P) \<and> 0 < kUnwind (cost_param P) \<and>
     0 < card_kExpand (card_param P) \<and> 0 < card_kExpandVariable (card_param P) \<and>
     0 < card_kExpandBreadthFirst (card_param P) \<and> 0 < card_kFilter (card_param P) \<and>
     card_kFilter (card_param P) < 1 \<and>
     0 < card_kExpandUniquenessFilter (card_param P) \<and>
     0 < kUnwindNoLiteral (misc_param P)"

text \<open>
  Modelled from the spec: the operators of a pipeline that grows from the leaf \<^verbatim>\<open>Once\<close>.
  A scan carries the vertex count the index statistics report for it; \<^verbatim>\<open>Unwind\<close>
  carries the size of its list literal, or nothing for an unknown expression.
\<close>

datatype LogicalOperator =
    ScanAll nat
  | ScanAllByLabel nat
  | ScanAllByLabelPropertyValue nat
  | ScanAllByLabelPropertyRange nat
  | Expand
  | ExpandVariable
  | ExpandBreadthFirst
  | Filter
  | ExpandUniquenessFilter
  | Unwind "nat option"

text \<open>
  Modelled from the spec: the estimator's state is the pair (cost, cardinality), started
  at \<open>(0, 1)\<close> by \<^verbatim>\<open>Once\<close>.  Scans and expansions first scale the cardinality and then
  charge the scaled cardinality (tests \<^verbatim>\<open>ScanAll\<close>, \<^verbatim>\<open>Expand\<close>); filters and unwinds first
  charge the incoming cardinality and then scale it (macro \<^verbatim>\<open>TEST_OP\<close>).
\<close>

fun visit :: "Params \<Rightarrow> LogicalOperator \<Rightarrow> real \<times> real \<Rightarrow> real \<times> real" where
  "visit P (ScanAll n) (c, k) =
     (c + k * real n * kScanAll (cost_param P), k * real n)"
| "visit P (ScanAllByLabel n) (c, k) =
     (c + k * real n * kScanAllByLabel (cost_param P), k * real n)"
| "visit P (ScanAllByLabelPropertyValue n) (c, k) =
     (c + k * real n * MakeScanAllByLabelPropertyValue (cost_param P), k * real n)"
| "visit P (ScanAllByLabelPropertyRange n) (c, k) =
     (c + k * real n * MakeScanAllByLabelPropertyRange (cost_param P), k * real n)"
| "visit P Expand (c, k) =
     (c + k * card_kExpand (card_param P) * kExpand (cost_param P),
      k * card_kExpand (card_param P))"
| "visit P ExpandVariable (c, k) =
     (c + k * card_kExpandVariable (card_param P) * kExpandVariable (cost_param P),
      k * card_kExpandVariable (card_param P))"
| "visit P ExpandBreadthFirst (c, k) =
     (c + k * card_kExpandBreadthFirst (card_param P)
               * kExpandBreadthFirst (cost_param P),
      k * card_kExpandBreadthFirst (card_param P))"
| "visit P Filter (c, k) =
     (c + k * kFilter (cost_param P), k * card_kFilter (card_param P))"
| "visit P ExpandUniquenessFilter (c, k) =
     (c + k * kExpandUniquenessFilter (cost_param P),
      k * card_kExpandUniquenessFilter (card_param P))"
| "visit P (Unwind (Some n)) (c, k) =
     (c + k * kUnwind (cost_param P), k * real n)"
| "visit P (Unwind None) (c, k) =
     (c + k * kUnwind (cost_param P), k * kUnwindNoLiteral (misc_param P))"

text \<open>
  Modelled from the spec: the visitor walks the pipeline from the leaf up; the cost and
  the cardinality of a plan are the two components of the state it ends in.
\<close>

fun estimate :: "Params \<Rightarrow> LogicalOperator list \<Rightarrow> real \<times> real \<Rightarrow> real \<times> real" where
  "estimate P [] st = st"
| "estimate P (op # ops) st = estimate P ops (visit P op st)"

text \<open>Modelled from the spec: the total cost of a plan.\<close>

definition cost :: "Params \<Rightarrow> LogicalOperator list \<Rightarrow> real" where
  "cost P plan = fst (estimate P plan (0, 1))"

text \<open>Modelled from the spec: the number of rows a plan is estimated to emit.\<close>

definition cardinality :: "Params \<Rightarrow> LogicalOperator list \<Rightarrow> real" where
  "cardinality P plan = snd (estimate P plan (0, 1))"

text \<open>Constants satisfying the requirements of section 4.4, for concrete evaluation.\<close>

definition example_params :: Params where
  "example_params =
     \<lparr> cost_param = \<lparr> kScanAll = 1, kScanAllByLabel = 11 / 10,
                      MakeScanAllByLabelPropertyValue = 11 / 10,
                      MakeScanAllByLabelPropertyRange = 11 / 10,
                      kExpand = 2, kExpandVariable = 3, kExpandBreadthFirst = 5,
                      kFilter = 3 / 2, kExpandUniquenessFilter = 3 / 2,
                      kUnwind = 13 / 10 \<rparr>,
       card_param = \<lparr> card_kExpand = 3, card_kExpandVariable = 9,
                      card_kExpandBreadthFirst = 25, card_kFilter = 1 / 4,
                      card_kExpandUniquenessFilter = 19 / 20 \<rparr>,
       misc_param = \<lparr> kUnwindNoLiteral = 10 \<rparr> \<rparr>"

section \<open>The distributed update coordinator: data model\<close>

subsection \<open>Identifiers, addresses and state deltas\<close>

type_synonym Gid = "64 word"
type_synonym transaction_id_t = "64 word"
type_synonym Label = nat
type_synonym Property = nat
type_synonym EdgeType = nat

datatype PropertyValue = VNull | VBool bool | VInt int | VString string

text \<open>
  Modelled from the spec: \<^verbatim>\<open>storage::Address\<close> is not among the sources.  Section 3
  gives an address as the pair (worker id, gid); resolving a local address to a record
  pointer (\<^verbatim>\<open>LocalizedAddressIfPossible\<close>) does not change which record is denoted.
\<close>

datatype Address = Address (worker_id: int) (gid: Gid)

text \<open>Modelled from the spec: \<^verbatim>\<open>Storage::LocalizedAddressIfPossible\<close>.\<close>

definition LocalizedAddressIfPossible :: "Address \<Rightarrow> Address" where
  "LocalizedAddressIfPossible a = a"

datatype StateDelta_Type =
    TRANSACTION_BEGIN | TRANSACTION_COMMIT | TRANSACTION_ABORT
  | CREATE_VERTEX | CREATE_EDGE
  | SET_PROPERTY_VERTEX | SET_PROPERTY_EDGE
  | ADD_LABEL | REMOVE_LABEL
  | ADD_OUT_EDGE | ADD_IN_EDGE
  | REMOVE_VERTEX | REMOVE_EDGE | REMOVE_OUT_EDGE | REMOVE_IN_EDGE
  | BUILD_INDEX

datatype UpdateResult =
    DONE | SERIALIZATION_ERROR | LOCK_TIMEOUT_ERROR | UPDATE_DELETED_ERROR
  | UNABLE_TO_DELETE_VERTEX_ERROR

text \<open>
  Modelled from the spec: \<^verbatim>\<open>database::StateDelta\<close> is not among the sources.  The
  record holds the fields that \<^verbatim>\<open>updates_rpc_server.cpp\<close> reads; the factory functions
  take their arguments in the order of the calls in that file and fill the fields that
  \<^verbatim>\<open>TransactionUpdates::Apply\<close> reads for the tag.  The field \<^verbatim>\<open>value\<close> is \<open>val\<close> here.
  Labels, properties and edge types are the numeric ids of the storage layer.  The
  factories that the file does not call (\<open>StateDelta_CreateVertex\<close>,
  \<open>StateDelta_CreateEdge\<close>, \<open>StateDelta_PropsSetVertex\<close>, \<open>StateDelta_PropsSetEdge\<close>,
  \<open>StateDelta_AddLabel\<close>, \<open>StateDelta_RemoveLabel\<close>) build the deltas with which the
  accessor operations describe their own change (section 4.5); by section 3 each carries
  the transaction id and the fields relevant to its tag.
\<close>

record StateDelta =
  type :: StateDelta_Type
  transaction_id :: transaction_id_t
  vertex_id :: Gid
  edge_id :: Gid
  edge_address :: Address
  vertex_from_address :: Address
  vertex_to_address :: Address
  edge_type :: EdgeType
  property :: Property
  val :: PropertyValue
  label :: Label
  check_empty :: bool

text \<open>Modelled from the spec: the constructor from a type and a transaction id.\<close>

definition StateDelta_init :: "StateDelta_Type \<Rightarrow> transaction_id_t \<Rightarrow> StateDelta" where
  "StateDelta_init ty tx =
     \<lparr> type = ty, transaction_id = tx, vertex_id = 0, edge_id = 0,
       edge_address = Address 0 0, vertex_from_address = Address 0 0,
       vertex_to_address = Address 0 0, edge_type = 0, property = 0,
       val = VNull, label = 0, check_empty = False \<rparr>"

text \<open>Modelled from the spec: \<^verbatim>\<open>StateDelta::AddOutEdge\<close>.\<close>

definition StateDelta_AddOutEdge ::
  "transaction_id_t \<Rightarrow> Gid \<Rightarrow> Address \<Rightarrow> Address \<Rightarrow> EdgeType \<Rightarrow> StateDelta" where
  "StateDelta_AddOutEdge tx v to_addr e_addr et =
     (StateDelta_init ADD_OUT_EDGE tx)
       \<lparr> vertex_id := v, vertex_to_address := to_addr, edge_address := e_addr,
         edge_type := et \<rparr>"

text \<open>Modelled from the spec: \<^verbatim>\<open>StateDelta::AddInEdge\<close>.\<close>

definition StateDelta_AddInEdge ::
  "transaction_id_t \<Rightarrow> Gid \<Rightarrow> Address \<Rightarrow> Address \<Rightarrow> EdgeType \<Rightarrow> StateDelta" where
  "StateDelta_AddInEdge tx v from_addr e_addr et =
     (StateDelta_init ADD_IN_EDGE tx)
       \<lparr> vertex_id := v, vertex_from_address := from_addr, edge_address := e_addr,
         edge_type := et \<rparr>"

text \<open>Modelled from the spec: \<^verbatim>\<open>StateDelta::RemoveVertex\<close>.\<close>

definition StateDelta_RemoveVertex ::
  "transaction_id_t \<Rightarrow> Gid \<Rightarrow> bool \<Rightarrow> StateDelta" where
  "StateDelta_RemoveVertex tx v ce =
     (StateDelta_init REMOVE_VERTEX tx) \<lparr> vertex_id := v, check_empty := ce \<rparr>"

text \<open>Modelled from the spec: \<^verbatim>\<open>StateDelta::RemoveEdge\<close>.\<close>

definition StateDelta_RemoveEdge :: "transaction_id_t \<Rightarrow> Gid \<Rightarrow> StateDelta" where
  "StateDelta_RemoveEdge tx e = (StateDelta_init REMOVE_EDGE tx) \<lparr> edge_id := e \<rparr>"

text \<open>Modelled from the spec: \<^verbatim>\<open>StateDelta::RemoveOutEdge\<close>.\<close>

definition StateDelta_RemoveOutEdge ::
  "transaction_id_t \<Rightarrow> Gid \<Rightarrow> Address \<Rightarrow> StateDelta" where
  "StateDelta_RemoveOutEdge tx v e_addr =
     (StateDelta_init REMOVE_OUT_EDGE tx) \<lparr> vertex_id := v, edge_address := e_addr \<rparr>"

text \<open>Modelled from the spec: \<^verbatim>\<open>StateDelta::RemoveInEdge\<close>.\<close>

definition StateDelta_RemoveInEdge ::
  "transaction_id_t \<Rightarrow> Gid \<Rightarrow> Address \<Rightarrow> StateDelta" where
  "StateDelta_RemoveInEdge tx v e_addr =
     (StateDelta_init REMOVE_IN_EDGE tx) \<lparr> vertex_id := v, edge_address := e_addr \<rparr>"

text \<open>Modelled from the spec: \<^verbatim>\<open>StateDelta::CreateVertex\<close>.\<close>

definition StateDelta_CreateVertex :: "transaction_id_t \<Rightarrow> Gid \<Rightarrow> StateDelta" where
  "StateDelta_CreateVertex tx v = (StateDelta_init CREATE_VERTEX tx) \<lparr> vertex_id := v \<rparr>"

text \<open>Modelled from the spec: \<^verbatim>\<open>StateDelta::CreateEdge\<close>.\<close>

definition StateDelta_CreateEdge ::
  "transaction_id_t \<Rightarrow> Gid \<Rightarrow> Address \<Rightarrow> Address \<Rightarrow> EdgeType \<Rightarrow> StateDelta" where
  "StateDelta_CreateEdge tx e from_addr to_addr et =
     (StateDelta_init CREATE_EDGE tx)
       \<lparr> edge_id := e, vertex_from_address := from_addr, vertex_to_address := to_addr,
         edge_type := et \<rparr>"

text \<open>Modelled from the spec: \<^verbatim>\<open>StateDelta::PropsSetVertex\<close>.\<close>

definition StateDelta_PropsSetVertex ::
  "transaction_id_t \<Rightarrow> Gid \<Rightarrow> Property \<Rightarrow> PropertyValue \<Rightarrow> StateDelta" where
  "StateDelta_PropsSetVertex tx v key x =
     (StateDelta_init SET_PROPERTY_VERTEX tx) \<lparr> vertex_id := v, property := key, val := x \<rparr>"

text \<open>Modelled from the spec: \<^verbatim>\<open>StateDelta::PropsSetEdge\<close>.\<close>

definition StateDelta_PropsSetEdge ::
  "transaction_id_t \<Rightarrow> Gid \<Rightarrow> Property \<Rightarrow> PropertyValue \<Rightarrow> StateDelta" where
  "StateDelta_PropsSetEdge tx e key x =
     (StateDelta_init SET_PROPERTY_EDGE tx) \<lparr> edge_id := e, property := key, val := x \<rparr>"

text \<open>Modelled from the spec: \<^verbatim>\<open>StateDelta::AddLabel\<close>.\<close>

definition StateDelta_AddLabel :: "transaction_id_t \<Rightarrow> Gid \<Rightarrow> Label \<Rightarrow> StateDelta" where
  "StateDelta_AddLabel tx v l = (StateDelta_init ADD_LABEL tx) \<lparr> vertex_id := v, label := l \<rparr>"

text \<open>Modelled from the spec: \<^verbatim>\<open>StateDelta::RemoveLabel\<close>.\<close>

definition StateDelta_RemoveLabel :: "transaction_id_t \<Rightarrow> Gid \<Rightarrow> Label \<Rightarrow> StateDelta" where
  "StateDelta_RemoveLabel tx v l =
     (StateDelta_init REMOVE_LABEL tx) \<lparr> vertex_id := v, label := l \<rparr>"

subsection \<open>The record store behind the graph accessor\<close>

text \<open>
  Modelled from the spec: the storage engine (\<^verbatim>\<open>GraphDb\<close>, \<^verbatim>\<open>GraphDbAccessor\<close>,
  \<^verbatim>\<open>VertexAccessor\<close>, \<^verbatim>\<open>EdgeAccessor\<close>, the version lists) is not among the sources.
  Section 3 gives the payloads: a vertex has a set of labels, a property map and the
  lists of outgoing and incoming edges, each entry being (vertex address, edge address,
  edge type); an edge has its two end points and its type (and, as every record,
  properties).  The members \<^verbatim>\<open>out_\<close> and \<^verbatim>\<open>in_\<close> of \<^verbatim>\<open>Vertex\<close>, which \<^verbatim>\<open>Apply\<close> writes,
  are \<open>v_out\<close> and \<open>v_in\<close>.
\<close>

record Vertex =
  v_labels :: "Label set"
  v_properties :: "Property \<rightharpoonup> PropertyValue"
  v_out :: "(Address \<times> Address \<times> EdgeType) list"
  v_in :: "(Address \<times> Address \<times> EdgeType) list"

record Edge =
  e_from :: Address
  e_to :: Address
  e_type :: EdgeType
  e_properties :: "Property \<rightharpoonup> PropertyValue"

text \<open>
  Modelled from the spec: section 4.2 lets a write access (\<^verbatim>\<open>Update\<close>) fail in three
  ways: another active transaction holds the record's lock (\<^verbatim>\<open>LockTimeout\<close>), the
  version is superseded by a committed writer the transaction cannot see
  (\<^verbatim>\<open>SerializationError\<close>), the record is deleted (\<^verbatim>\<open>RecordDeleted\<close>).  A version list
  is abstracted to the payload the transaction works on and the three facts that decide
  the outcome of a write access.
\<close>

record 'a VersionList =
  payload :: 'a
  lock_holder :: "transaction_id_t option"
  superseded :: bool
  expired :: bool

datatype exn = SerializationError | RecordDeletedError | LockTimeoutException

text \<open>
  The ways in which a call does not return to the RPC layer: \<^verbatim>\<open>LOG(FATAL)\<close>, a
  \<^verbatim>\<open>reinterpret_cast\<close> of an accessor to the other accessor type (undefined behaviour), a
  failed lookup of a record, and an exception that no handler catches.
\<close>

datatype failure = LogFatal | BadCast | NotFound | Uncaught exn

text \<open>
  Modelled from the spec: the database of one worker, with its worker id, its vertex and
  edge records by gid, and the next gid of each kind.  \<open>wal\<close> lists the deltas handed to
  \<^verbatim>\<open>WriteAheadLog::Emplace\<close> (declared in \<^verbatim>\<open>durability/single_node_ha/wal.hpp\<close>), in
  call order: those that \<^verbatim>\<open>updates_rpc_server.cpp\<close> hands over itself, and those that
  the operations of the graph accessor emit for their own change (section 4.5: mutations
  go through the graph accessor, which emits \<^verbatim>\<open>StateDelta\<close>s to the WAL).  What the log
  does with a delta (it buffers it only if it is enabled) is behind that call.
\<close>

record GraphDb =
  WorkerId :: int
  vertices :: "Gid \<rightharpoonup> Vertex VersionList"
  edges :: "Gid \<rightharpoonup> Edge VersionList"
  vertex_generator :: Gid
  edge_generator :: Gid
  wal :: "StateDelta list"

text \<open>Modelled from the spec: \<^verbatim>\<open>WriteAheadLog::Emplace\<close>, as a call.\<close>

definition wal_Emplace :: "GraphDb \<Rightarrow> StateDelta \<Rightarrow> GraphDb" where
  "wal_Emplace db delta = db \<lparr> wal := wal db @ [delta] \<rparr>"

text \<open>Modelled from the spec: \<^verbatim>\<open>Update\<close> of section 4.2, checks in the order given there.\<close>

definition lock_for_update ::
  "transaction_id_t \<Rightarrow> 'a VersionList \<Rightarrow> exn + 'a VersionList" where
  "lock_for_update t r =
     (if lock_holder r \<noteq> None \<and> lock_holder r \<noteq> Some t then Inl LockTimeoutException
      else if superseded r then Inl SerializationError
      else if expired r then Inl RecordDeletedError
      else Inr (r \<lparr> lock_holder := Some t \<rparr>))"

text \<open>
  Modelled from the spec: \<^verbatim>\<open>update()\<close> of a vertex accessor followed by a change \<open>f\<close> of
  the payload it returns.  A record that is no longer in the store counts as deleted.
\<close>

definition modify_vertex ::
  "GraphDb \<Rightarrow> transaction_id_t \<Rightarrow> Gid \<Rightarrow> (Vertex \<Rightarrow> Vertex) \<Rightarrow> exn + GraphDb" where
  "modify_vertex db t g f =
     (case vertices db g of
        None \<Rightarrow> Inl RecordDeletedError
      | Some r \<Rightarrow>
          (case lock_for_update t r of
             Inl e \<Rightarrow> Inl e
           | Inr r' \<Rightarrow>
               Inr (db \<lparr> vertices := (vertices db)(g \<mapsto> r' \<lparr> payload := f (payload r') \<rparr>) \<rparr>)))"

text \<open>Modelled from the spec: the same for an edge accessor.\<close>

definition modify_edge ::
  "GraphDb \<Rightarrow> transaction_id_t \<Rightarrow> Gid \<Rightarrow> (Edge \<Rightarrow> Edge) \<Rightarrow> exn + GraphDb" where
  "modify_edge db t g f =
     (case edges db g of
        None \<Rightarrow> Inl RecordDeletedError
      | Some r \<Rightarrow>
          (case lock_for_update t r of
             Inl e \<Rightarrow> Inl e
           | Inr r' \<Rightarrow>
               Inr (db \<lparr> edges := (edges db)(g \<mapsto> r' \<lparr> payload := f (payload r') \<rparr>) \<rparr>)))"

text \<open>
  Modelled from the spec: the accessor operations that \<^verbatim>\<open>updates_rpc_server.cpp\<close> calls.
  Each one that changes a record goes through the write access of section 4.2; a removal
  is a write access that marks the record deleted.  A record accessor is the handle on
  the record's gid, and \<^verbatim>\<open>Reconstruct\<close> re-resolves the version seen through it.
  \<^verbatim>\<open>FindVertex\<close> and \<^verbatim>\<open>FindEdge\<close> are the \<^verbatim>\<open>Find\<close> of section 4.2, which fails with
  \<^verbatim>\<open>NotFound\<close> when there is no record to bind the accessor to; the source has no handler
  for that, so the call that looks the record up does not return.  An insertion takes the
  next gid of the worker and creates a record that any transaction can write to.  By
  section 4.5 every operation that changes the store emits the \<^verbatim>\<open>StateDelta\<close> of its
  change to the WAL, under the transaction \<open>t\<close> the accessor is bound to; an operation
  that raises, or that changes nothing, emits nothing.
\<close>

type_synonym RecordAccessor = Gid

text \<open>Modelled from the spec: \<^verbatim>\<open>RecordAccessor::Reconstruct\<close>.\<close>

definition Reconstruct :: "RecordAccessor \<Rightarrow> RecordAccessor" where
  "Reconstruct acc = acc"

text \<open>Modelled from the spec: \<^verbatim>\<open>GraphDbAccessor::FindVertex\<close>.\<close>

definition FindVertex :: "GraphDb \<Rightarrow> Gid \<Rightarrow> failure + RecordAccessor" where
  "FindVertex db g = (if vertices db g = None then Inl NotFound else Inr g)"

text \<open>Modelled from the spec: \<^verbatim>\<open>GraphDbAccessor::FindEdge\<close>.\<close>

definition FindEdge :: "GraphDb \<Rightarrow> Gid \<Rightarrow> failure + RecordAccessor" where
  "FindEdge db g = (if edges db g = None then Inl NotFound else Inr g)"

text \<open>Modelled from the spec: \<^verbatim>\<open>GraphDbAccessor::InsertVertex\<close>.\<close>

definition InsertVertex :: "GraphDb \<Rightarrow> transaction_id_t \<Rightarrow> RecordAccessor \<times> GraphDb" where
  "InsertVertex db t =
     (let g = vertex_generator db;
          v = \<lparr> v_labels = {}, v_properties = Map.empty, v_out = [], v_in = [] \<rparr>;
          r = \<lparr> payload = v, lock_holder = None, superseded = False, expired = False \<rparr>
      in (g, wal_Emplace (db \<lparr> vertices := (vertices db)(g \<mapsto> r), vertex_generator := g + 1 \<rparr>)
               (StateDelta_CreateVertex t g)))"

text \<open>Modelled from the spec: \<^verbatim>\<open>GraphDbAccessor::InsertOnlyEdge\<close>.\<close>

definition InsertOnlyEdge ::
  "GraphDb \<Rightarrow> transaction_id_t \<Rightarrow> Address \<Rightarrow> Address \<Rightarrow> EdgeType
     \<Rightarrow> RecordAccessor \<times> GraphDb" where
  "InsertOnlyEdge db t from_addr to_addr et =
     (let g = edge_generator db;
          e = \<lparr> e_from = from_addr, e_to = to_addr, e_type = et,
                e_properties = Map.empty \<rparr>;
          r = \<lparr> payload = e, lock_holder = None, superseded = False, expired = False \<rparr>
      in (g, wal_Emplace (db \<lparr> edges := (edges db)(g \<mapsto> r), edge_generator := g + 1 \<rparr>)
               (StateDelta_CreateEdge t g from_addr to_addr et)))"

text \<open>
  Modelled from the spec: an accessor operation that has changed the store emits the
  delta of its change; if it has raised, nothing is emitted.
\<close>

definition emit :: "exn + GraphDb \<Rightarrow> StateDelta \<Rightarrow> exn + GraphDb" where
  "emit r delta = (case r of Inl e \<Rightarrow> Inl e | Inr db \<Rightarrow> Inr (wal_Emplace db delta))"

text \<open>Modelled from the spec: \<^verbatim>\<open>VertexAccessor::add_label\<close>.\<close>

definition add_label ::
  "GraphDb \<Rightarrow> transaction_id_t \<Rightarrow> RecordAccessor \<Rightarrow> Label \<Rightarrow> exn + GraphDb" where
  "add_label db t acc l =
     emit (modify_vertex db t acc (\<lambda>v. v \<lparr> v_labels := insert l (v_labels v) \<rparr>))
       (StateDelta_AddLabel t acc l)"

text \<open>Modelled from the spec: \<^verbatim>\<open>VertexAccessor::remove_label\<close>.\<close>

definition remove_label ::
  "GraphDb \<Rightarrow> transaction_id_t \<Rightarrow> RecordAccessor \<Rightarrow> Label \<Rightarrow> exn + GraphDb" where
  "remove_label db t acc l =
     emit (modify_vertex db t acc (\<lambda>v. v \<lparr> v_labels := v_labels v - {l} \<rparr>))
       (StateDelta_RemoveLabel t acc l)"

text \<open>Modelled from the spec: \<^verbatim>\<open>RecordAccessor::PropsSet\<close> of a vertex accessor.\<close>

definition PropsSet_vertex ::
  "GraphDb \<Rightarrow> transaction_id_t \<Rightarrow> RecordAccessor \<Rightarrow> Property \<Rightarrow> PropertyValue
     \<Rightarrow> exn + GraphDb" where
  "PropsSet_vertex db t acc key v =
     emit (modify_vertex db t acc (\<lambda>x. x \<lparr> v_properties := (v_properties x)(key \<mapsto> v) \<rparr>))
       (StateDelta_PropsSetVertex t acc key v)"

text \<open>Modelled from the spec: \<^verbatim>\<open>RecordAccessor::PropsSet\<close> of an edge accessor.\<close>

definition PropsSet_edge ::
  "GraphDb \<Rightarrow> transaction_id_t \<Rightarrow> RecordAccessor \<Rightarrow> Property \<Rightarrow> PropertyValue
     \<Rightarrow> exn + GraphDb" where
  "PropsSet_edge db t acc key v =
     emit (modify_edge db t acc (\<lambda>x. x \<lparr> e_properties := (e_properties x)(key \<mapsto> v) \<rparr>))
       (StateDelta_PropsSetEdge t acc key v)"

text \<open>Modelled from the spec: \<^verbatim>\<open>VertexAccessor::RemoveOutEdge\<close>.\<close>

definition RemoveOutEdge ::
  "GraphDb \<Rightarrow> transaction_id_t \<Rightarrow> RecordAccessor \<Rightarrow> Address \<Rightarrow> exn + GraphDb" where
  "RemoveOutEdge db t acc e_addr =
     emit (modify_vertex db t acc
             (\<lambda>v. v \<lparr> v_out := filter (\<lambda>(va, ea, et). ea \<noteq> e_addr) (v_out v) \<rparr>))
       (StateDelta_RemoveOutEdge t acc e_addr)"

text \<open>Modelled from the spec: \<^verbatim>\<open>VertexAccessor::RemoveInEdge\<close>.\<close>

definition RemoveInEdge ::
  "GraphDb \<Rightarrow> transaction_id_t \<Rightarrow> RecordAccessor \<Rightarrow> Address \<Rightarrow> exn + GraphDb" where
  "RemoveInEdge db t acc e_addr =
     emit (modify_vertex db t acc
             (\<lambda>v. v \<lparr> v_in := filter (\<lambda>(va, ea, et). ea \<noteq> e_addr) (v_in v) \<rparr>))
       (StateDelta_RemoveInEdge t acc e_addr)"

text \<open>
  Modelled from the spec: \<^verbatim>\<open>GraphDbAccessor::RemoveVertex\<close> (here \<open>dba_RemoveVertex\<close>) returns false, and removes
  nothing, if \<open>check_empty\<close> is set and the vertex still has edges (section 4.7,
  \<^verbatim>\<open>UnableToDeleteVertex\<close> in section 7); otherwise it removes the record
  and emits a \<^verbatim>\<open>REMOVE_VERTEX\<close> delta.
\<close>

definition dba_RemoveVertex ::
  "GraphDb \<Rightarrow> transaction_id_t \<Rightarrow> RecordAccessor \<Rightarrow> bool \<Rightarrow> exn + (bool \<times> GraphDb)" where
  "dba_RemoveVertex db t acc ce =
     (case vertices db acc of
        None \<Rightarrow> Inl RecordDeletedError
      | Some r \<Rightarrow>
          if ce \<and> (v_out (payload r) \<noteq> [] \<or> v_in (payload r) \<noteq> []) then Inr (False, db)
          else (case lock_for_update t r of
                  Inl e \<Rightarrow> Inl e
                | Inr r' \<Rightarrow>
                    Inr (True,
                         wal_Emplace
                           (db \<lparr> vertices := (vertices db)(acc \<mapsto> r' \<lparr> expired := True \<rparr>) \<rparr>)
                           (StateDelta_RemoveVertex t acc ce))))"

text \<open>
  Modelled from the spec: \<^verbatim>\<open>GraphDbAccessor::RemoveEdge\<close> (here \<open>dba_RemoveEdge\<close>) with
  both flags false removes the edge record only, as the comment at lines 146-148 says.
\<close>

definition dba_RemoveEdge ::
  "GraphDb \<Rightarrow> transaction_id_t \<Rightarrow> RecordAccessor \<Rightarrow> exn + GraphDb" where
  "dba_RemoveEdge db t acc =
     (case edges db acc of
        None \<Rightarrow> Inl RecordDeletedError
      | Some r \<Rightarrow>
          (case lock_for_update t r of
             Inl e \<Rightarrow> Inl e
           | Inr r' \<Rightarrow>
               Inr (wal_Emplace (db \<lparr> edges := (edges db)(acc \<mapsto> r' \<lparr> expired := True \<rparr>) \<rparr>)
                      (StateDelta_RemoveEdge t acc))))"

section \<open>The distributed update coordinator: \<^verbatim>\<open>updates_rpc_server.cpp\<close>\<close>

subsection \<open>Buffered updates of one transaction\<close>

text \<open>
  \<^verbatim>\<open>TransactionUpdates<TRecordAccessor>\<close>: the template argument is a value of
  \<open>TRecordAccessor\<close>, passed to every member function.  \<open>db_accessor\<close> (the member
  \<^verbatim>\<open>db_accessor_\<close>) is the transaction the object's graph accessor is bound to; the
  database itself is passed explicitly.  \<open>deltas\<close> (the member \<^verbatim>\<open>deltas_\<close>) is the
  \<^verbatim>\<open>std::unordered_map\<close> from gid to (accessor, vector of deltas).  The spin lock
  serialises the member functions and has no counterpart here.
\<close>

datatype TRecordAccessor = VertexAccessor | EdgeAccessor

record TransactionUpdates =
  db_accessor :: transaction_id_t
  deltas :: "Gid \<rightharpoonup> (RecordAccessor \<times> StateDelta list)"

text \<open>The two specialisations of \<^verbatim>\<open>FindAccessor\<close> (lines 337-347).\<close>

definition FindAccessor :: "TRecordAccessor \<Rightarrow> GraphDb \<Rightarrow> Gid \<Rightarrow> failure + RecordAccessor" where
  "FindAccessor T db g =
     (case T of VertexAccessor \<Rightarrow> FindVertex db g | EdgeAccessor \<Rightarrow> FindEdge db g)"

text \<open>\<^verbatim>\<open>TransactionUpdates::Emplace\<close> (lines 10-59).\<close>

definition Emplace ::
  "TRecordAccessor \<Rightarrow> GraphDb \<Rightarrow> TransactionUpdates \<Rightarrow> StateDelta
     \<Rightarrow> failure + (UpdateResult \<times> TransactionUpdates)" where
  "Emplace T db tu delta =
     (let g = (if T = VertexAccessor then vertex_id delta else edge_id delta) in
      case deltas tu g of
        Some (acc, ds) \<Rightarrow>
          Inr (DONE, tu \<lparr> deltas := (deltas tu)(g \<mapsto> (acc, ds @ [delta])) \<rparr>)
      | None \<Rightarrow>
          (case FindAccessor T db g of
             Inl f \<Rightarrow> Inl f
           | Inr acc \<Rightarrow>
               Inr (DONE, tu \<lparr> deltas := (deltas tu)(g \<mapsto> (acc, [delta])) \<rparr>)))"

text \<open>
  \<^verbatim>\<open>unordered_map::emplace\<close> as used by \<^verbatim>\<open>CreateVertex\<close> and \<^verbatim>\<open>CreateEdge\<close>: it inserts
  only if the key is absent.
\<close>

definition emplace_if_absent ::
  "('k \<rightharpoonup> 'v) \<Rightarrow> 'k \<Rightarrow> 'v \<Rightarrow> ('k \<rightharpoonup> 'v)" where
  "emplace_if_absent m k v = (case m k of None \<Rightarrow> m(k \<mapsto> v) | Some _ \<Rightarrow> m)"

text \<open>The two loops of \<^verbatim>\<open>TransactionUpdates::CreateVertex\<close> (lines 67-68).\<close>

fun add_labels ::
  "GraphDb \<Rightarrow> transaction_id_t \<Rightarrow> RecordAccessor \<Rightarrow> Label list \<Rightarrow> failure + GraphDb" where
  "add_labels db t acc [] = Inr db"
| "add_labels db t acc (l # ls) =
     (case add_label db t acc l of
        Inl e \<Rightarrow> Inl (Uncaught e)
      | Inr db' \<Rightarrow> add_labels db' t acc ls)"

fun set_properties ::
  "GraphDb \<Rightarrow> transaction_id_t \<Rightarrow> RecordAccessor \<Rightarrow> (Property \<times> PropertyValue) list
     \<Rightarrow> failure + GraphDb" where
  "set_properties db t acc [] = Inr db"
| "set_properties db t acc (kv # kvs) =
     (case PropsSet_vertex db t acc (fst kv) (snd kv) of
        Inl e \<Rightarrow> Inl (Uncaught e)
      | Inr db' \<Rightarrow> set_properties db' t acc kvs)"

text \<open>
  \<^verbatim>\<open>TransactionUpdates::CreateVertex\<close> (lines 61-73).  \<open>properties\<close> lists the entries of
  the \<^verbatim>\<open>std::unordered_map\<close> argument in the order the loop visits them.
\<close>

definition TransactionUpdates_CreateVertex ::
  "GraphDb \<Rightarrow> TransactionUpdates \<Rightarrow> Label list \<Rightarrow> (Property \<times> PropertyValue) list
     \<Rightarrow> failure + (Gid \<times> GraphDb \<times> TransactionUpdates)" where
  "TransactionUpdates_CreateVertex db tu labels properties =
     (let (result, db1) = InsertVertex db (db_accessor tu) in
      case add_labels db1 (db_accessor tu) result labels of
        Inl f \<Rightarrow> Inl f
      | Inr db2 \<Rightarrow>
          (case set_properties db2 (db_accessor tu) result properties of
             Inl f \<Rightarrow> Inl f
           | Inr db3 \<Rightarrow>
               Inr (result, db3,
                    tu \<lparr> deltas := emplace_if_absent (deltas tu) result (result, []) \<rparr>)))"

text \<open>\<^verbatim>\<open>TransactionUpdates::CreateEdge\<close> (lines 75-86).\<close>

definition TransactionUpdates_CreateEdge ::
  "GraphDb \<Rightarrow> TransactionUpdates \<Rightarrow> Gid \<Rightarrow> Address \<Rightarrow> EdgeType
     \<Rightarrow> Gid \<times> GraphDb \<times> TransactionUpdates" where
  "TransactionUpdates_CreateEdge db tu from_gid to_addr et =
     (let (edge, db1) =
            InsertOnlyEdge db (db_accessor tu) (Address (WorkerId db) from_gid)
              (LocalizedAddressIfPossible to_addr) et
      in (edge, db1, tu \<lparr> deltas := emplace_if_absent (deltas tu) edge (edge, []) \<rparr>))"

subsection \<open>Applying the buffered updates of one transaction\<close>

text \<open>The three \<^verbatim>\<open>catch\<close> clauses of \<^verbatim>\<open>TransactionUpdates::Apply\<close> (lines 162-168).\<close>

definition catch :: "exn \<Rightarrow> UpdateResult" where
  "catch e =
     (case e of
        SerializationError \<Rightarrow> SERIALIZATION_ERROR
      | RecordDeletedError \<Rightarrow> UPDATE_DELETED_ERROR
      | LockTimeoutException \<Rightarrow> LOCK_TIMEOUT_ERROR)"

text \<open>An accessor call inside the \<^verbatim>\<open>try\<close> block, followed by \<^verbatim>\<open>break\<close>.\<close>

definition try_break :: "GraphDb \<Rightarrow> exn + GraphDb \<Rightarrow> failure + (UpdateResult \<times> GraphDb)" where
  "try_break db r = (case r of Inl e \<Rightarrow> Inr (catch e, db) | Inr db' \<Rightarrow> Inr (DONE, db'))"

definition PropsSet ::
  "TRecordAccessor \<Rightarrow> GraphDb \<Rightarrow> transaction_id_t \<Rightarrow> RecordAccessor \<Rightarrow> Property
     \<Rightarrow> PropertyValue \<Rightarrow> exn + GraphDb" where
  "PropsSet T db t acc key v =
     (case T of
        VertexAccessor \<Rightarrow> PropsSet_vertex db t acc key v
      | EdgeAccessor \<Rightarrow> PropsSet_edge db t acc key v)"

text \<open>
  The body of the inner loop of \<^verbatim>\<open>TransactionUpdates::Apply\<close> (lines 97-168): the
  \<^verbatim>\<open>switch\<close> on the delta's type inside \<^verbatim>\<open>try\<close>.  The result is \<open>DONE\<close> where the source
  reaches \<^verbatim>\<open>break\<close> and the returned error code where it returns.  Where the source casts
  the accessor of an \<^verbatim>\<open>EdgeAccessor\<close> instantiation to \<^verbatim>\<open>VertexAccessor &\<close> (or the other
  way round for \<^verbatim>\<open>REMOVE_EDGE\<close>) the behaviour is undefined: \<open>BadCast\<close>.  For the two
  structural deltas \<^verbatim>\<open>update()\<close> runs, and may throw, before the cast of its result.
\<close>

definition apply_delta ::
  "TRecordAccessor \<Rightarrow> transaction_id_t \<Rightarrow> GraphDb \<Rightarrow> RecordAccessor \<Rightarrow> StateDelta
     \<Rightarrow> failure + (UpdateResult \<times> GraphDb)" where
  "apply_delta T t db record_accessor delta =
     (case type delta of
        TRANSACTION_BEGIN \<Rightarrow> Inl LogFatal
      | TRANSACTION_COMMIT \<Rightarrow> Inl LogFatal
      | TRANSACTION_ABORT \<Rightarrow> Inl LogFatal
      | CREATE_VERTEX \<Rightarrow> Inl LogFatal
      | CREATE_EDGE \<Rightarrow> Inl LogFatal
      | BUILD_INDEX \<Rightarrow> Inl LogFatal
      | REMOVE_VERTEX \<Rightarrow>
          if T \<noteq> VertexAccessor then Inl BadCast
          else (case dba_RemoveVertex db t record_accessor (check_empty delta) of
                  Inl e \<Rightarrow> Inr (catch e, db)
                | Inr (removed, db') \<Rightarrow>
                    if \<not> removed then Inr (UNABLE_TO_DELETE_VERTEX_ERROR, db')
                    else Inr (DONE, db'))
      | SET_PROPERTY_VERTEX \<Rightarrow>
          try_break db (PropsSet T db t record_accessor (property delta) (val delta))
      | SET_PROPERTY_EDGE \<Rightarrow>
          try_break db (PropsSet T db t record_accessor (property delta) (val delta))
      | ADD_LABEL \<Rightarrow>
          if T \<noteq> VertexAccessor then Inl BadCast
          else try_break db (add_label db t record_accessor (label delta))
      | REMOVE_LABEL \<Rightarrow>
          if T \<noteq> VertexAccessor then Inl BadCast
          else try_break db (remove_label db t record_accessor (label delta))
      | ADD_OUT_EDGE \<Rightarrow>
          (case T of
             VertexAccessor \<Rightarrow>
               (case modify_vertex db t record_accessor
                       (\<lambda>v. v \<lparr> v_out := v_out v @
                                  [(LocalizedAddressIfPossible (vertex_to_address delta),
                                    LocalizedAddressIfPossible (edge_address delta),
                                    edge_type delta)] \<rparr>) of
                  Inl e \<Rightarrow> Inr (catch e, db)
                | Inr db' \<Rightarrow> Inr (DONE, wal_Emplace db' delta))
           | EdgeAccessor \<Rightarrow>
               (case modify_edge db t record_accessor (\<lambda>e. e) of
                  Inl e \<Rightarrow> Inr (catch e, db)
                | Inr db' \<Rightarrow> Inl BadCast))
      | ADD_IN_EDGE \<Rightarrow>
          (case T of
             VertexAccessor \<Rightarrow>
               (case modify_vertex db t record_accessor
                       (\<lambda>v. v \<lparr> v_in := v_in v @
                                  [(LocalizedAddressIfPossible (vertex_from_address delta),
                                    LocalizedAddressIfPossible (edge_address delta),
                                    edge_type delta)] \<rparr>) of
                  Inl e \<Rightarrow> Inr (catch e, db)
                | Inr db' \<Rightarrow> Inr (DONE, wal_Emplace db' delta))
           | EdgeAccessor \<Rightarrow>
               (case modify_edge db t record_accessor (\<lambda>e. e) of
                  Inl e \<Rightarrow> Inr (catch e, db)
                | Inr db' \<Rightarrow> Inl BadCast))
      | REMOVE_EDGE \<Rightarrow>
          if T \<noteq> EdgeAccessor then Inl BadCast
          else try_break db (dba_RemoveEdge db t record_accessor)
      | REMOVE_OUT_EDGE \<Rightarrow>
          if T \<noteq> VertexAccessor then Inl BadCast
          else try_break db (RemoveOutEdge db t record_accessor (edge_address delta))
      | REMOVE_IN_EDGE \<Rightarrow>
          if T \<noteq> VertexAccessor then Inl BadCast
          else try_break db (RemoveInEdge db t record_accessor (edge_address delta)))"

text \<open>
  The inner loop over the deltas of one record.  Next to the result and the database the
  function returns a log: every delta handed to the \<^verbatim>\<open>switch\<close>, in order, paired with
  the result of applying it.  The log is not in the source; it records what the loop did.
\<close>

fun apply_deltas ::
  "TRecordAccessor \<Rightarrow> transaction_id_t \<Rightarrow> GraphDb \<Rightarrow> RecordAccessor \<Rightarrow> StateDelta list
     \<Rightarrow> failure + (UpdateResult \<times> GraphDb \<times> (StateDelta \<times> UpdateResult) list)" where
  "apply_deltas T t db acc [] = Inr (DONE, db, [])"
| "apply_deltas T t db acc (delta # rest) =
     (case apply_delta T t db acc delta of
        Inl f \<Rightarrow> Inl f
      | Inr (r, db') \<Rightarrow>
          if r \<noteq> DONE then Inr (r, db', [(delta, r)])
          else (case apply_deltas T t db' acc rest of
                  Inl f \<Rightarrow> Inl f
                | Inr (r', db'', tr) \<Rightarrow> Inr (r', db'', (delta, DONE) # tr)))"

text \<open>
  The outer loop over the entries of \<open>deltas\<close>.  The iteration order of a
  \<^verbatim>\<open>std::unordered_map\<close> is unspecified: \<open>order\<close> lists the keys in the order in which
  the loop visits them.
\<close>

fun apply_records ::
  "TRecordAccessor \<Rightarrow> transaction_id_t \<Rightarrow> GraphDb
     \<Rightarrow> (Gid \<rightharpoonup> (RecordAccessor \<times> StateDelta list)) \<Rightarrow> Gid list
     \<Rightarrow> failure + (UpdateResult \<times> GraphDb \<times> (StateDelta \<times> UpdateResult) list)" where
  "apply_records T t db m [] = Inr (DONE, db, [])"
| "apply_records T t db m (g # gs) =
     (case m g of
        None \<Rightarrow> apply_records T t db m gs
      | Some (acc, ds) \<Rightarrow>
          (case apply_deltas T t db (Reconstruct acc) ds of
             Inl f \<Rightarrow> Inl f
           | Inr (r, db', tr) \<Rightarrow>
               if r \<noteq> DONE then Inr (r, db', tr)
               else (case apply_records T t db' m gs of
                       Inl f \<Rightarrow> Inl f
                     | Inr (r', db'', tr') \<Rightarrow> Inr (r', db'', tr @ tr'))))"

text \<open>\<^verbatim>\<open>TransactionUpdates::Apply\<close> (lines 88-172).\<close>

definition TransactionUpdates_Apply ::
  "TRecordAccessor \<Rightarrow> Gid list \<Rightarrow> TransactionUpdates \<Rightarrow> GraphDb
     \<Rightarrow> failure + (UpdateResult \<times> GraphDb \<times> (StateDelta \<times> UpdateResult) list)" where
  "TransactionUpdates_Apply T order tu db =
     apply_records T (db_accessor tu) db (deltas tu) order"

text \<open>\<open>order\<close> is an iteration order of the map \<open>m\<close>: every key once.\<close>

definition iteration_order :: "('k \<rightharpoonup> 'v) \<Rightarrow> 'k list \<Rightarrow> bool" where
  "iteration_order m order \<longleftrightarrow> distinct order \<and> set order = dom m"

subsection \<open>The server\<close>

text \<open>
  \<^verbatim>\<open>MapT\<close> is a \<^verbatim>\<open>ConcurrentMap\<close> from transaction id to \<^verbatim>\<open>TransactionUpdates\<close>: a skip
  list, that is a list of entries sorted by key with no key twice.  \<open>access_find\<close>,
  \<open>access_emplace\<close> and \<open>access_remove\<close> are the operations of its accessor, and
  \<open>access_assign\<close> writes through the reference that \<^verbatim>\<open>GetUpdates\<close> returns.  The
  members \<^verbatim>\<open>db_\<close>, \<^verbatim>\<open>vertex_updates_\<close> and \<^verbatim>\<open>edge_updates_\<close> of the server are \<open>graph_db\<close>,
  \<open>vertex_updates\<close> and \<open>edge_updates\<close>.
\<close>

type_synonym MapT = "(transaction_id_t \<times> TransactionUpdates) list"

definition access_find :: "MapT \<Rightarrow> transaction_id_t \<Rightarrow> TransactionUpdates option" where
  "access_find access tx = map_of access tx"

definition access_emplace :: "MapT \<Rightarrow> transaction_id_t \<Rightarrow> TransactionUpdates \<Rightarrow> MapT" where
  "access_emplace access tx tu =
     (case access_find access tx of
        None \<Rightarrow> insort_key fst (tx, tu) access
      | Some _ \<Rightarrow> access)"

definition access_remove :: "MapT \<Rightarrow> transaction_id_t \<Rightarrow> MapT" where
  "access_remove access tx = filter (\<lambda>kv. fst kv \<noteq> tx) access"

definition access_assign :: "MapT \<Rightarrow> transaction_id_t \<Rightarrow> TransactionUpdates \<Rightarrow> MapT" where
  "access_assign access tx tu = map (\<lambda>kv. if fst kv = tx then (tx, tu) else kv) access"

record UpdatesRpcServer =
  graph_db :: GraphDb
  vertex_updates :: MapT
  edge_updates :: MapT

text \<open>
  \<^verbatim>\<open>UpdatesRpcServer::GetUpdates\<close> (lines 291-299): the updates of the transaction,
  created empty if there are none, and the collection that now holds them.
\<close>

definition GetUpdates :: "MapT \<Rightarrow> transaction_id_t \<Rightarrow> TransactionUpdates \<times> MapT" where
  "GetUpdates updates tx =
     (let updates' = access_emplace updates tx \<lparr> db_accessor = tx, deltas = Map.empty \<rparr> in
      case access_find updates' tx of
        Some tu \<Rightarrow> (tu, updates')
      | None \<Rightarrow> (\<lparr> db_accessor = tx, deltas = Map.empty \<rparr>, updates'))"

text \<open>The expression \<^verbatim>\<open>GetUpdates(updates, tx_id).Emplace(delta)\<close>.\<close>

definition GetUpdates_Emplace ::
  "TRecordAccessor \<Rightarrow> GraphDb \<Rightarrow> MapT \<Rightarrow> transaction_id_t \<Rightarrow> StateDelta
     \<Rightarrow> failure + (UpdateResult \<times> MapT)" where
  "GetUpdates_Emplace T db updates tx delta =
     (let (tu, updates') = GetUpdates updates tx in
      case Emplace T db tu delta of
        Inl f \<Rightarrow> Inl f
      | Inr (r, tu') \<Rightarrow> Inr (r, access_assign updates' tx tu'))"

text \<open>The handler of \<^verbatim>\<open>UpdateRpc\<close> (lines 177-195).\<close>

definition UpdateRpc ::
  "UpdatesRpcServer \<Rightarrow> StateDelta \<Rightarrow> failure + (UpdateResult \<times> UpdatesRpcServer)" where
  "UpdateRpc s delta =
     (if type delta \<in> {SET_PROPERTY_VERTEX, ADD_LABEL, REMOVE_LABEL, REMOVE_OUT_EDGE,
                       REMOVE_IN_EDGE} then
        (case GetUpdates_Emplace VertexAccessor (graph_db s) (vertex_updates s)
                (transaction_id delta) delta of
           Inl f \<Rightarrow> Inl f
         | Inr (r, vu) \<Rightarrow> Inr (r, s \<lparr> vertex_updates := vu \<rparr>))
      else if type delta = SET_PROPERTY_EDGE then
        (case GetUpdates_Emplace EdgeAccessor (graph_db s) (edge_updates s)
                (transaction_id delta) delta of
           Inl f \<Rightarrow> Inl f
         | Inr (r, eu) \<Rightarrow> Inr (r, s \<lparr> edge_updates := eu \<rparr>))
      else Inl LogFatal)"

text \<open>
  The request payloads.  Their declarations are not among the sources; the fields are
  those that the handlers read, prefixed to keep them apart.
\<close>

record CreateVertexReqData =
  cv_tx_id :: transaction_id_t
  cv_labels :: "Label list"
  cv_properties :: "(Property \<times> PropertyValue) list"

record CreateEdgeReqData =
  ce_tx_id :: transaction_id_t
  ce_from :: Gid
  ce_to :: Address
  ce_edge_type :: EdgeType

record RemoveVertexReqData =
  rv_tx_id :: transaction_id_t
  rv_gid :: Gid
  rv_check_empty :: bool

record RemoveEdgeData =
  re_tx_id :: transaction_id_t
  re_edge_id :: Gid
  re_vertex_from_id :: Gid
  re_vertex_to_address :: Address

text \<open>The handler of \<^verbatim>\<open>CreateVertexRpc\<close> (lines 201-206).\<close>

definition CreateVertexRpc ::
  "UpdatesRpcServer \<Rightarrow> CreateVertexReqData
     \<Rightarrow> failure + ((UpdateResult \<times> Gid) \<times> UpdatesRpcServer)" where
  "CreateVertexRpc s req =
     (let (tu, vu) = GetUpdates (vertex_updates s) (cv_tx_id req) in
      case TransactionUpdates_CreateVertex (graph_db s) tu (cv_labels req)
             (cv_properties req) of
        Inl f \<Rightarrow> Inl f
      | Inr (g, db', tu') \<Rightarrow>
          Inr ((DONE, g),
               s \<lparr> graph_db := db', vertex_updates := access_assign vu (cv_tx_id req) tu' \<rparr>))"

text \<open>\<^verbatim>\<open>UpdatesRpcServer::CreateEdge\<close> (lines 301-310).\<close>

definition CreateEdge ::
  "UpdatesRpcServer \<Rightarrow> CreateEdgeReqData
     \<Rightarrow> failure + ((UpdateResult \<times> Gid) \<times> UpdatesRpcServer)" where
  "CreateEdge s req =
     (let (tu, eu) = GetUpdates (edge_updates s) (ce_tx_id req);
          (g, db', tu') =
            TransactionUpdates_CreateEdge (graph_db s) tu (ce_from req) (ce_to req)
              (ce_edge_type req);
          eu' = access_assign eu (ce_tx_id req) tu';
          from_delta =
            StateDelta_AddOutEdge (ce_tx_id req) (ce_from req) (ce_to req)
              (Address (WorkerId db') g) (ce_edge_type req)
      in case GetUpdates_Emplace VertexAccessor db' (vertex_updates s) (ce_tx_id req)
                from_delta of
           Inl f \<Rightarrow> Inl f
         | Inr (r, vu) \<Rightarrow>
             Inr ((r, g), \<lparr> graph_db = db', vertex_updates = vu, edge_updates = eu' \<rparr>))"

text \<open>The handler of \<^verbatim>\<open>CreateEdgeRpc\<close> (lines 208-224).\<close>

definition CreateEdgeRpc ::
  "UpdatesRpcServer \<Rightarrow> CreateEdgeReqData
     \<Rightarrow> failure + ((UpdateResult \<times> Gid) \<times> UpdatesRpcServer)" where
  "CreateEdgeRpc s data =
     (case CreateEdge s data of
        Inl f \<Rightarrow> Inl f
      | Inr ((r, g), s1) \<Rightarrow>
          if r = DONE \<and> worker_id (ce_to data) = WorkerId (graph_db s1) then
            (let to_delta =
                   StateDelta_AddInEdge (ce_tx_id data) (gid (ce_to data))
                     (Address (WorkerId (graph_db s1)) (ce_from data))
                     (Address (WorkerId (graph_db s1)) g) (ce_edge_type data)
             in case GetUpdates_Emplace VertexAccessor (graph_db s1) (vertex_updates s1)
                       (ce_tx_id data) to_delta of
                  Inl f \<Rightarrow> Inl f
                | Inr (r', vu) \<Rightarrow> Inr ((r', g), s1 \<lparr> vertex_updates := vu \<rparr>))
          else Inr ((r, g), s1))"

text \<open>The handler of \<^verbatim>\<open>RemoveVertexRpc\<close> (lines 235-241).\<close>

definition RemoveVertexRpc ::
  "UpdatesRpcServer \<Rightarrow> RemoveVertexReqData \<Rightarrow> failure + (UpdateResult \<times> UpdatesRpcServer)" where
  "RemoveVertexRpc s req =
     (let to_delta = StateDelta_RemoveVertex (rv_tx_id req) (rv_gid req) (rv_check_empty req)
      in case GetUpdates_Emplace VertexAccessor (graph_db s) (vertex_updates s)
                (rv_tx_id req) to_delta of
           Inl f \<Rightarrow> Inl f
         | Inr (r, vu) \<Rightarrow> Inr (r, s \<lparr> vertex_updates := vu \<rparr>))"

text \<open>
  The handlers of \<^verbatim>\<open>AddInEdgeRpc\<close> (lines 226-233) and \<^verbatim>\<open>RemoveInEdgeRpc\<close> (lines
  247-253), with the members of the request as arguments.
\<close>

definition AddInEdgeRpc ::
  "UpdatesRpcServer \<Rightarrow> transaction_id_t \<Rightarrow> Address \<Rightarrow> Gid \<Rightarrow> Address \<Rightarrow> EdgeType
     \<Rightarrow> failure + (UpdateResult \<times> UpdatesRpcServer)" where
  "AddInEdgeRpc s tx from_addr to_gid e_addr et =
     (let to_delta = StateDelta_AddInEdge tx to_gid from_addr e_addr et
      in case GetUpdates_Emplace VertexAccessor (graph_db s) (vertex_updates s) tx to_delta of
           Inl f \<Rightarrow> Inl f
         | Inr (result, vu) \<Rightarrow> Inr (result, s \<lparr> vertex_updates := vu \<rparr>))"

definition RemoveInEdgeRpc ::
  "UpdatesRpcServer \<Rightarrow> transaction_id_t \<Rightarrow> Gid \<Rightarrow> Address
     \<Rightarrow> failure + (UpdateResult \<times> UpdatesRpcServer)" where
  "RemoveInEdgeRpc s tx vertex e_addr =
     (case GetUpdates_Emplace VertexAccessor (graph_db s) (vertex_updates s) tx
             (StateDelta_RemoveInEdge tx vertex e_addr) of
        Inl f \<Rightarrow> Inl f
      | Inr (result, vu) \<Rightarrow> Inr (result, s \<lparr> vertex_updates := vu \<rparr>))"

text \<open>\<^verbatim>\<open>UpdatesRpcServer::RemoveEdge\<close> (lines 312-335).\<close>

definition RemoveEdge ::
  "UpdatesRpcServer \<Rightarrow> RemoveEdgeData \<Rightarrow> failure + (UpdateResult \<times> UpdatesRpcServer)" where
  "RemoveEdge s data =
     (let deletion_delta = StateDelta_RemoveEdge (re_tx_id data) (re_edge_id data) in
      case GetUpdates_Emplace EdgeAccessor (graph_db s) (edge_updates s) (re_tx_id data)
             deletion_delta of
        Inl f \<Rightarrow> Inl f
      | Inr (result, eu) \<Rightarrow>
          (let s1 = s \<lparr> edge_updates := eu \<rparr> in
           case (if result = DONE then
                   (let remove_out_delta =
                          StateDelta_RemoveOutEdge (re_tx_id data) (re_vertex_from_id data)
                            (Address (WorkerId (graph_db s1)) (re_edge_id data))
                    in case GetUpdates_Emplace VertexAccessor (graph_db s1)
                              (vertex_updates s1) (re_tx_id data) remove_out_delta of
                         Inl f \<Rightarrow> Inl f
                       | Inr (r, vu) \<Rightarrow> Inr (r, s1 \<lparr> vertex_updates := vu \<rparr>))
                 else Inr (result, s1)) of
             Inl f \<Rightarrow> Inl f
           | Inr (result2, s2) \<Rightarrow>
               if result2 = DONE
                  \<and> worker_id (re_vertex_to_address data) = WorkerId (graph_db s2) then
                 (let remove_in_delta =
                        StateDelta_RemoveInEdge (re_tx_id data)
                          (gid (re_vertex_to_address data))
                          (Address (WorkerId (graph_db s2)) (re_edge_id data))
                  in case GetUpdates_Emplace VertexAccessor (graph_db s2)
                            (vertex_updates s2) (re_tx_id data) remove_in_delta of
                       Inl f \<Rightarrow> Inl f
                     | Inr (r, vu) \<Rightarrow> Inr (r, s2 \<lparr> vertex_updates := vu \<rparr>))
               else Inr (result2, s2)))"

text \<open>
  The lambda \<^verbatim>\<open>apply\<close> of \<^verbatim>\<open>UpdatesRpcServer::Apply\<close> (lines 257-266), on one collection.
\<close>

definition apply_collection ::
  "TRecordAccessor \<Rightarrow> Gid list \<Rightarrow> GraphDb \<Rightarrow> MapT \<Rightarrow> transaction_id_t
     \<Rightarrow> failure + (UpdateResult \<times> GraphDb \<times> MapT \<times> (StateDelta \<times> UpdateResult) list)" where
  "apply_collection T order db collection tx_id =
     (case access_find collection tx_id of
        None \<Rightarrow> Inr (DONE, db, collection, [])
      | Some found \<Rightarrow>
          (case TransactionUpdates_Apply T order found db of
             Inl f \<Rightarrow> Inl f
           | Inr (result, db', tr) \<Rightarrow>
               Inr (result, db', access_remove collection tx_id, tr)))"

text \<open>
  \<^verbatim>\<open>UpdatesRpcServer::Apply\<close> (lines 256-273).  \<open>vorder\<close> and \<open>eorder\<close> are the iteration
  orders of the transaction's vertex and edge updates.
\<close>

definition Apply ::
  "Gid list \<Rightarrow> Gid list \<Rightarrow> UpdatesRpcServer \<Rightarrow> transaction_id_t
     \<Rightarrow> failure + (UpdateResult \<times> UpdatesRpcServer \<times> (StateDelta \<times> UpdateResult) list)" where
  "Apply vorder eorder s tx_id =
     (case apply_collection VertexAccessor vorder (graph_db s) (vertex_updates s) tx_id of
        Inl f \<Rightarrow> Inl f
      | Inr (vertex_result, db1, vu, vtr) \<Rightarrow>
          (case apply_collection EdgeAccessor eorder db1 (edge_updates s) tx_id of
             Inl f \<Rightarrow> Inl f
           | Inr (edge_result, db2, eu, etr) \<Rightarrow>
               Inr (if vertex_result \<noteq> DONE then vertex_result
                    else if edge_result \<noteq> DONE then edge_result
                    else DONE,
                    \<lparr> graph_db = db2, vertex_updates = vu, edge_updates = eu \<rparr>,
                    vtr @ etr)))"

text \<open>\<^verbatim>\<open>UpdatesRpcServer::ClearTransactionalCache\<close> (lines 275-289): one loop.\<close>

fun clear_loop :: "(transaction_id_t \<times> TransactionUpdates) list \<Rightarrow> transaction_id_t
     \<Rightarrow> MapT \<Rightarrow> MapT" where
  "clear_loop [] oldest_active access = access"
| "clear_loop (kv # kvs) oldest_active access =
     clear_loop kvs oldest_active
       (if fst kv < oldest_active then access_remove access (fst kv) else access)"

definition ClearTransactionalCache ::
  "UpdatesRpcServer \<Rightarrow> transaction_id_t \<Rightarrow> UpdatesRpcServer" where
  "ClearTransactionalCache s oldest_active =
     s \<lparr> vertex_updates := clear_loop (vertex_updates s) oldest_active (vertex_updates s),
         edge_updates := clear_loop (edge_updates s) oldest_active (edge_updates s) \<rparr>"

subsection \<open>Observations used in the statements\<close>

text \<open>The gid under which \<^verbatim>\<open>Emplace\<close> files a delta (lines 13-15).\<close>

definition record_id :: "TRecordAccessor \<Rightarrow> StateDelta \<Rightarrow> Gid" where
  "record_id T delta = (if T = VertexAccessor then vertex_id delta else edge_id delta)"

text \<open>The deltas buffered for a record in the updates of a transaction, oldest first.\<close>

definition buffered :: "MapT \<Rightarrow> transaction_id_t \<Rightarrow> Gid \<Rightarrow> StateDelta list" where
  "buffered updates tx g =
     (case access_find updates tx of
        None \<Rightarrow> []
      | Some tu \<Rightarrow> (case deltas tu g of None \<Rightarrow> [] | Some (acc, ds) \<Rightarrow> ds))"

text \<open>The updates of a transaction have an entry (an accessor and a queue) for a record.\<close>

definition has_record :: "MapT \<Rightarrow> transaction_id_t \<Rightarrow> Gid \<Rightarrow> bool" where
  "has_record updates tx g =
     (case access_find updates tx of
        None \<Rightarrow> False
      | Some tu \<Rightarrow> deltas tu g \<noteq> None)"

text \<open>The record is in the store of the database.\<close>

definition in_store :: "TRecordAccessor \<Rightarrow> GraphDb \<Rightarrow> Gid \<Rightarrow> bool" where
  "in_store T db g =
     (case T of VertexAccessor \<Rightarrow> vertices db g \<noteq> None
              | EdgeAccessor \<Rightarrow> edges db g \<noteq> None)"

text \<open>
  \<^verbatim>\<open>Emplace\<close> can obtain an accessor for the record: it has one already, or the record is
  in the store.
\<close>

definition obtainable ::
  "TRecordAccessor \<Rightarrow> GraphDb \<Rightarrow> MapT \<Rightarrow> transaction_id_t \<Rightarrow> Gid \<Rightarrow> bool" where
  "obtainable T db updates tx g = (has_record updates tx g \<or> in_store T db g)"

text \<open>The updates after \<open>delta\<close> has been appended to the queue of record \<open>g\<close>.\<close>

definition emplaced :: "TransactionUpdates \<Rightarrow> Gid \<Rightarrow> StateDelta \<Rightarrow> TransactionUpdates" where
  "emplaced tu g delta =
     tu \<lparr> deltas := (deltas tu)
            (g \<mapsto> (case deltas tu g of
                      None \<Rightarrow> (g, [delta])
                    | Some (acc, ds) \<Rightarrow> (acc, ds @ [delta]))) \<rparr>"

text \<open>The updates of a transaction in a collection, empty if it has none.\<close>

definition updates_or_new :: "MapT \<Rightarrow> transaction_id_t \<Rightarrow> TransactionUpdates" where
  "updates_or_new updates tx =
     (case access_find updates tx of
        Some tu \<Rightarrow> tu
      | None \<Rightarrow> \<lparr> db_accessor = tx, deltas = Map.empty \<rparr>)"

text \<open>The collection of the server for a kind of record.\<close>

definition updates_of :: "TRecordAccessor \<Rightarrow> UpdatesRpcServer \<Rightarrow> MapT" where
  "updates_of T s = (case T of VertexAccessor \<Rightarrow> vertex_updates s | EdgeAccessor \<Rightarrow> edge_updates s)"

text \<open>
  The collection in which the handler of \<^verbatim>\<open>UpdateRpc\<close> files a delta, by its type; none
  for the types of the \<^verbatim>\<open>default\<close> branch.
\<close>

definition update_kind :: "StateDelta \<Rightarrow> TRecordAccessor option" where
  "update_kind delta =
     (if type delta \<in> {SET_PROPERTY_VERTEX, ADD_LABEL, REMOVE_LABEL, REMOVE_OUT_EDGE,
                       REMOVE_IN_EDGE} then Some VertexAccessor
      else if type delta = SET_PROPERTY_EDGE then Some EdgeAccessor
      else None)"

text \<open>
  The delta types that \<^verbatim>\<open>TransactionUpdates::Apply\<close> applies to a record of the given
  kind without \<^verbatim>\<open>LOG(FATAL)\<close> and without a cast to the other accessor type.
\<close>

definition applicable :: "TRecordAccessor \<Rightarrow> StateDelta \<Rightarrow> bool" where
  "applicable T delta =
     (case T of
        VertexAccessor \<Rightarrow>
          type delta \<in> {REMOVE_VERTEX, SET_PROPERTY_VERTEX, SET_PROPERTY_EDGE, ADD_LABEL,
                         REMOVE_LABEL, ADD_OUT_EDGE, ADD_IN_EDGE, REMOVE_OUT_EDGE,
                         REMOVE_IN_EDGE}
      | EdgeAccessor \<Rightarrow>
          type delta \<in> {SET_PROPERTY_VERTEX, SET_PROPERTY_EDGE, REMOVE_EDGE})"

definition all_applicable ::
  "TRecordAccessor \<Rightarrow> MapT \<Rightarrow> transaction_id_t \<Rightarrow> bool" where
  "all_applicable T updates tx =
     (\<forall>g. list_all (applicable T) (buffered updates tx g))"

text \<open>Every delta buffered in the server is of a type that \<^verbatim>\<open>Apply\<close> handles for its kind.\<close>

definition well_buffered :: "UpdatesRpcServer \<Rightarrow> bool" where
  "well_buffered s \<longleftrightarrow>
     (\<forall>tx. all_applicable VertexAccessor (vertex_updates s) tx
          \<and> all_applicable EdgeAccessor (edge_updates s) tx)"

text \<open>The buffered deltas in the order in which the two loops of \<^verbatim>\<open>Apply\<close> reach them.\<close>

definition queued ::
  "(Gid \<rightharpoonup> (RecordAccessor \<times> StateDelta list)) \<Rightarrow> Gid list \<Rightarrow> StateDelta list" where
  "queued m order =
     concat (map (\<lambda>g. case m g of None \<Rightarrow> [] | Some (acc, ds) \<Rightarrow> ds) order)"

definition queued_in :: "MapT \<Rightarrow> transaction_id_t \<Rightarrow> Gid list \<Rightarrow> StateDelta list" where
  "queued_in updates tx order =
     (case access_find updates tx of None \<Rightarrow> [] | Some tu \<Rightarrow> queued (deltas tu) order)"

text \<open>The first result other than \<open>DONE\<close> in a sequence of results, \<open>DONE\<close> if there is none.\<close>

definition first_non_done :: "UpdateResult list \<Rightarrow> UpdateResult" where
  "first_non_done rs = (case dropWhile (\<lambda>r. r = DONE) rs of [] \<Rightarrow> DONE | r # _ \<Rightarrow> r)"

text \<open>
  What the write access of section 4.2 to a record does for a transaction: the exception
  it raises, if any.
\<close>

definition write_access ::
  "TRecordAccessor \<Rightarrow> GraphDb \<Rightarrow> transaction_id_t \<Rightarrow> Gid \<Rightarrow> exn option" where
  "write_access T db t g =
     (case T of
        VertexAccessor \<Rightarrow>
          (case vertices db g of
             None \<Rightarrow> Some RecordDeletedError
           | Some r \<Rightarrow> (case lock_for_update t r of Inl e \<Rightarrow> Some e | Inr _ \<Rightarrow> None))
      | EdgeAccessor \<Rightarrow>
          (case edges db g of
             None \<Rightarrow> Some RecordDeletedError
           | Some r \<Rightarrow> (case lock_for_update t r of Inl e \<Rightarrow> Some e | Inr _ \<Rightarrow> None)))"

text \<open>The vertex still has edges.\<close>

definition has_edges :: "GraphDb \<Rightarrow> Gid \<Rightarrow> bool" where
  "has_edges db g =
     (case vertices db g of
        None \<Rightarrow> False
      | Some r \<Rightarrow> v_out (payload r) \<noteq> [] \<or> v_in (payload r) \<noteq> [])"

text \<open>
  \<open>tr\<close> is the log of a loop that went through the deltas \<open>ds\<close> in order, stopped at the
  first result other than \<open>DONE\<close> and returned \<open>r\<close>: the logged deltas are an initial
  segment of \<open>ds\<close>, every logged result but the last is \<open>DONE\<close>, and either \<open>r\<close> is
  \<open>DONE\<close> and all of \<open>ds\<close> is logged with \<open>DONE\<close>, or \<open>r\<close> is the last logged result.
\<close>

definition log_of ::
  "UpdateResult \<Rightarrow> StateDelta list \<Rightarrow> (StateDelta \<times> UpdateResult) list \<Rightarrow> bool" where
  "log_of r ds tr \<longleftrightarrow>
     map fst tr = take (length tr) ds
     \<and> list_all (\<lambda>x. snd x = DONE) (butlast tr)
     \<and> (if r = DONE then list_all (\<lambda>x. snd x = DONE) tr \<and> length tr = length ds
        else tr \<noteq> [] \<and> snd (last tr) = r)"

text \<open>
  The database after \<^verbatim>\<open>InsertOnlyEdge\<close> for a request, through an accessor bound to
  transaction \<open>t\<close>.
\<close>

definition edge_inserted :: "GraphDb \<Rightarrow> transaction_id_t \<Rightarrow> CreateEdgeReqData \<Rightarrow> GraphDb" where
  "edge_inserted db t req =
     db \<lparr> edges := (edges db)
            (edge_generator db \<mapsto>
               \<lparr> payload = \<lparr> e_from = Address (WorkerId db) (ce_from req), e_to = ce_to req,
                             e_type = ce_edge_type req, e_properties = Map.empty \<rparr>,
                 lock_holder = None, superseded = False, expired = False \<rparr>),
          edge_generator := edge_generator db + 1,
          wal := wal db @ [StateDelta_CreateEdge t (edge_generator db)
                             (Address (WorkerId db) (ce_from req)) (ce_to req)
                             (ce_edge_type req)] \<rparr>"

text \<open>A write access of the transaction to the version list succeeds.\<close>

definition writable :: "transaction_id_t \<Rightarrow> 'a VersionList \<Rightarrow> bool" where
  "writable t r \<longleftrightarrow>
     (lock_holder r = None \<or> lock_holder r = Some t) \<and> \<not> superseded r \<and> \<not> expired r"

text \<open>
  A sequence of calls of \<^verbatim>\<open>Emplace\<close> on the updates of one transaction, each with the
  database as it is at the time of the call.
\<close>

fun emplace_all ::
  "TRecordAccessor \<Rightarrow> TransactionUpdates \<Rightarrow> (GraphDb \<times> StateDelta) list
     \<Rightarrow> failure + TransactionUpdates" where
  "emplace_all T tu [] = Inr tu"
| "emplace_all T tu (call # calls) =
     (case Emplace T (fst call) tu (snd call) of
        Inl f \<Rightarrow> Inl f
      | Inr (r, tu') \<Rightarrow> emplace_all T tu' calls)"

text \<open>The queue of deltas of a record in the updates of one transaction.\<close>

definition queue_of :: "TransactionUpdates \<Rightarrow> Gid \<Rightarrow> StateDelta list" where
  "queue_of tu g = (case deltas tu g of None \<Rightarrow> [] | Some (acc, ds) \<Rightarrow> ds)"

text \<open>No delta is buffered in the updates (entries without deltas may exist).\<close>

definition no_deltas :: "TransactionUpdates \<Rightarrow> bool" where
  "no_deltas tu \<longleftrightarrow> (\<forall>g. queue_of tu g = [])"

text \<open>
  The result that sections 4.2, 4.7 and 7 give for the application of one delta: a
  \<^verbatim>\<open>REMOVE_VERTEX\<close> with \<open>check_empty\<close> on a vertex that still has edges is
  \<^verbatim>\<open>UnableToDeleteVertex\<close>; otherwise an exception of the write access becomes the error
  code of its name, and without an exception the result is \<open>DONE\<close>.
\<close>

definition expected_result ::
  "TRecordAccessor \<Rightarrow> GraphDb \<Rightarrow> transaction_id_t \<Rightarrow> RecordAccessor \<Rightarrow> StateDelta
     \<Rightarrow> UpdateResult" where
  "expected_result T db t acc delta =
     (if type delta = REMOVE_VERTEX \<and> check_empty delta \<and> has_edges db acc
      then UNABLE_TO_DELETE_VERTEX_ERROR
      else (case write_access T db t acc of
              None \<Rightarrow> DONE
            | Some SerializationError \<Rightarrow> SERIALIZATION_ERROR
            | Some RecordDeletedError \<Rightarrow> UPDATE_DELETED_ERROR
            | Some LockTimeoutException \<Rightarrow> LOCK_TIMEOUT_ERROR))"


text \<open>
  The delta that reaches the WAL when \<open>delta\<close> is applied with success to the record
  \<open>acc\<close> of kind \<open>T\<close> under transaction \<open>t\<close>.  By section 4.7 a structural delta is
  written as it is; by section 4.5 a change of any other type is written by the accessor
  operation that makes it, as the delta of that operation.
\<close>

definition logged ::
  "TRecordAccessor \<Rightarrow> transaction_id_t \<Rightarrow> RecordAccessor \<Rightarrow> StateDelta \<Rightarrow> StateDelta" where
  "logged T t acc delta =
     (case type delta of
        SET_PROPERTY_VERTEX \<Rightarrow>
          (case T of
             VertexAccessor \<Rightarrow> StateDelta_PropsSetVertex t acc (property delta) (val delta)
           | EdgeAccessor \<Rightarrow> StateDelta_PropsSetEdge t acc (property delta) (val delta))
      | SET_PROPERTY_EDGE \<Rightarrow>
          (case T of
             VertexAccessor \<Rightarrow> StateDelta_PropsSetVertex t acc (property delta) (val delta)
           | EdgeAccessor \<Rightarrow> StateDelta_PropsSetEdge t acc (property delta) (val delta))
      | ADD_LABEL \<Rightarrow> StateDelta_AddLabel t acc (label delta)
      | REMOVE_LABEL \<Rightarrow> StateDelta_RemoveLabel t acc (label delta)
      | REMOVE_VERTEX \<Rightarrow> StateDelta_RemoveVertex t acc (check_empty delta)
      | REMOVE_EDGE \<Rightarrow> StateDelta_RemoveEdge t acc
      | REMOVE_OUT_EDGE \<Rightarrow> StateDelta_RemoveOutEdge t acc (edge_address delta)
      | REMOVE_IN_EDGE \<Rightarrow> StateDelta_RemoveInEdge t acc (edge_address delta)
      | _ \<Rightarrow> delta)"

text \<open>
  What a delta changes in the payload of the vertex it is applied to (sections 3 and
  4.7): a property is set, a label is added or removed, an entry is added at the end of
  the outgoing or incoming edges, or the entries of an edge are taken out of them.
\<close>

definition vertex_change :: "StateDelta \<Rightarrow> Vertex \<Rightarrow> Vertex" where
  "vertex_change delta v =
     (case type delta of
        SET_PROPERTY_VERTEX \<Rightarrow> v \<lparr> v_properties := (v_properties v)(property delta \<mapsto> val delta) \<rparr>
      | SET_PROPERTY_EDGE \<Rightarrow> v \<lparr> v_properties := (v_properties v)(property delta \<mapsto> val delta) \<rparr>
      | ADD_LABEL \<Rightarrow> v \<lparr> v_labels := insert (label delta) (v_labels v) \<rparr>
      | REMOVE_LABEL \<Rightarrow> v \<lparr> v_labels := v_labels v - {label delta} \<rparr>
      | ADD_OUT_EDGE \<Rightarrow>
          v \<lparr> v_out := v_out v @ [(vertex_to_address delta, edge_address delta,
                                    edge_type delta)] \<rparr>
      | ADD_IN_EDGE \<Rightarrow>
          v \<lparr> v_in := v_in v @ [(vertex_from_address delta, edge_address delta,
                                  edge_type delta)] \<rparr>
      | REMOVE_OUT_EDGE \<Rightarrow>
          v \<lparr> v_out := filter (\<lambda>x. fst (snd x) \<noteq> edge_address delta) (v_out v) \<rparr>
      | REMOVE_IN_EDGE \<Rightarrow>
          v \<lparr> v_in := filter (\<lambda>x. fst (snd x) \<noteq> edge_address delta) (v_in v) \<rparr>
      | _ \<Rightarrow> v)"

text \<open>What a delta changes in the payload of the edge it is applied to: a property is set.\<close>

definition edge_change :: "StateDelta \<Rightarrow> Edge \<Rightarrow> Edge" where
  "edge_change delta e =
     (case type delta of
        SET_PROPERTY_VERTEX \<Rightarrow> e \<lparr> e_properties := (e_properties e)(property delta \<mapsto> val delta) \<rparr>
      | SET_PROPERTY_EDGE \<Rightarrow> e \<lparr> e_properties := (e_properties e)(property delta \<mapsto> val delta) \<rparr>
      | _ \<Rightarrow> e)"

text \<open>
  The database after \<open>delta\<close> has been applied with success to the record \<open>acc\<close> of kind
  \<open>T\<close> under transaction \<open>t\<close>: the transaction holds the record's lock, the record is
  marked deleted if the delta removes it and has the changed payload otherwise, and the
  WAL has grown by one delta.  Nothing else has changed.
\<close>

definition applied ::
  "TRecordAccessor \<Rightarrow> GraphDb \<Rightarrow> transaction_id_t \<Rightarrow> RecordAccessor \<Rightarrow> StateDelta
     \<Rightarrow> GraphDb" where
  "applied T db t acc delta =
     (case T of
        VertexAccessor \<Rightarrow>
          (case vertices db acc of
             None \<Rightarrow> db
           | Some r \<Rightarrow>
               db \<lparr> vertices := (vertices db)
                      (acc \<mapsto> (if type delta = REMOVE_VERTEX
                                then r \<lparr> lock_holder := Some t, expired := True \<rparr>
                                else r \<lparr> lock_holder := Some t,
                                         payload := vertex_change delta (payload r) \<rparr>)),
                    wal := wal db @ [logged T t acc delta] \<rparr>)
      | EdgeAccessor \<Rightarrow>
          (case edges db acc of
             None \<Rightarrow> db
           | Some r \<Rightarrow>
               db \<lparr> edges := (edges db)
                      (acc \<mapsto> (if type delta = REMOVE_EDGE
                                then r \<lparr> lock_holder := Some t, expired := True \<rparr>
                                else r \<lparr> lock_holder := Some t,
                                         payload := edge_change delta (payload r) \<rparr>)),
                    wal := wal db @ [logged T t acc delta] \<rparr>))"

text \<open>
  The sequence of section 4.7 for a list of (record, delta): each delta is applied to the
  database that the deltas before it have left; the first result other than \<open>DONE\<close> ends
  the sequence and is its result, and leaves the database as it was before that delta.
  The third component pairs every delta reached with its result.
\<close>

fun sequential ::
  "TRecordAccessor \<Rightarrow> transaction_id_t \<Rightarrow> GraphDb \<Rightarrow> (RecordAccessor \<times> StateDelta) list
     \<Rightarrow> UpdateResult \<times> GraphDb \<times> (StateDelta \<times> UpdateResult) list" where
  "sequential T t db [] = (DONE, db, [])"
| "sequential T t db (x # xs) =
     (if expected_result T db t (fst x) (snd x) = DONE
      then (case sequential T t (applied T db t (fst x) (snd x)) xs of
              (r, db', tr) \<Rightarrow> (r, db', (snd x, DONE) # tr))
      else (expected_result T db t (fst x) (snd x), db,
            [(snd x, expected_result T db t (fst x) (snd x))]))"

text \<open>
  The buffered deltas, each with the accessor of its record, in the order in which the
  two loops of \<^verbatim>\<open>Apply\<close> reach them: the records in iteration order, the deltas of a
  record in the order of its queue.
\<close>

definition entries ::
  "(Gid \<rightharpoonup> (RecordAccessor \<times> StateDelta list)) \<Rightarrow> Gid list
     \<Rightarrow> (RecordAccessor \<times> StateDelta) list" where
  "entries m order =
     concat (map (\<lambda>g. case m g of None \<Rightarrow> [] | Some (acc, ds) \<Rightarrow> map (Pair acc) ds) order)"

text \<open>The sequence for the updates of a transaction in a collection.\<close>

definition sequential_in ::
  "TRecordAccessor \<Rightarrow> GraphDb \<Rightarrow> MapT \<Rightarrow> transaction_id_t \<Rightarrow> Gid list
     \<Rightarrow> UpdateResult \<times> GraphDb \<times> (StateDelta \<times> UpdateResult) list" where
  "sequential_in T db updates tx order =
     (case access_find updates tx of
        None \<Rightarrow> (DONE, db, [])
      | Some tu \<Rightarrow> sequential T (db_accessor tu) db (entries (deltas tu) order))"

text \<open>
  Every entry of the updates holds the accessor of the record it is filed under, as
  \<^verbatim>\<open>Emplace\<close>, \<^verbatim>\<open>CreateVertex\<close> and \<^verbatim>\<open>CreateEdge\<close> create them.
\<close>

definition own_accessors :: "(Gid \<rightharpoonup> (RecordAccessor \<times> StateDelta list)) \<Rightarrow> bool" where
  "own_accessors m \<longleftrightarrow> (\<forall>g acc ds. m g = Some (acc, ds) \<longrightarrow> acc = g)"

text \<open>
  Two databases hold the same record of kind \<open>T\<close> under \<open>g\<close>; and they hold the same
  records of the other kind.
\<close>

definition same_record :: "TRecordAccessor \<Rightarrow> Gid \<Rightarrow> GraphDb \<Rightarrow> GraphDb \<Rightarrow> bool" where
  "same_record T g db1 db2 =
     (case T of VertexAccessor \<Rightarrow> vertices db1 g = vertices db2 g
              | EdgeAccessor \<Rightarrow> edges db1 g = edges db2 g)"

definition same_others :: "TRecordAccessor \<Rightarrow> GraphDb \<Rightarrow> GraphDb \<Rightarrow> bool" where
  "same_others T db1 db2 =
     (case T of VertexAccessor \<Rightarrow> edges db1 = edges db2
              | EdgeAccessor \<Rightarrow> vertices db1 = vertices db2)"


subsection \<open>Example states\<close>

text \<open>
  A worker with id 1: vertex 1 is free, vertex 2 has an outgoing edge (edge 10, to
  vertex 1), vertex 3 is locked by transaction 9.
\<close>

definition example_vertex ::
  "(Address \<times> Address \<times> EdgeType) list \<Rightarrow> transaction_id_t option \<Rightarrow> Vertex VersionList" where
  "example_vertex out holder =
     \<lparr> payload = \<lparr> v_labels = {}, v_properties = Map.empty, v_out = out, v_in = [] \<rparr>,
       lock_holder = holder, superseded = False, expired = False \<rparr>"

definition example_edge :: "Edge VersionList" where
  "example_edge =
     \<lparr> payload = \<lparr> e_from = Address 1 2, e_to = Address 1 1, e_type = 0,
                   e_properties = Map.empty \<rparr>,
       lock_holder = None, superseded = False, expired = False \<rparr>"

definition example_db :: GraphDb where
  "example_db =
     \<lparr> WorkerId = 1,
       vertices = [1 \<mapsto> example_vertex [] None,
                   2 \<mapsto> example_vertex [(Address 1 1, Address 1 10, 0)] None,
                   3 \<mapsto> example_vertex [] (Some 9)],
       edges = [10 \<mapsto> example_edge],
       vertex_generator = 4, edge_generator = 11, wal = [] \<rparr>"

definition example_add_label :: StateDelta where
  "example_add_label = (StateDelta_init ADD_LABEL 5) \<lparr> vertex_id := 1, label := 7 \<rparr>"

definition example_set_property :: StateDelta where
  "example_set_property =
     (StateDelta_init SET_PROPERTY_VERTEX 5) \<lparr> vertex_id := 3, property := 2, val := VInt 4 \<rparr>"

definition example_buffered :: UpdatesRpcServer where
  "example_buffered =
     \<lparr> graph_db = example_db,
       vertex_updates =
         [(5, \<lparr> db_accessor = 5,
                deltas = [1 \<mapsto> (1, [example_add_label]),
                          2 \<mapsto> (2, [StateDelta_RemoveVertex 5 2 True])] \<rparr>)],
       edge_updates =
         [(5, \<lparr> db_accessor = 5, deltas = [10 \<mapsto> (10, [StateDelta_RemoveEdge 5 10])] \<rparr>)] \<rparr>"

definition example_structural :: UpdatesRpcServer where
  "example_structural =
     \<lparr> graph_db = example_db,
       vertex_updates =
         [(5, \<lparr> db_accessor = 5,
                deltas = [1 \<mapsto> (1, [example_add_label,
                                     StateDelta_AddOutEdge 5 1 (Address 1 2) (Address 1 10) 0]),
                          3 \<mapsto> (3, [StateDelta_AddInEdge 5 3 (Address 1 2) (Address 1 10) 0])] \<rparr>)],
       edge_updates = [] \<rparr>"

definition example_empty :: UpdatesRpcServer where
  "example_empty = \<lparr> graph_db = example_db, vertex_updates = [], edge_updates = [] \<rparr>"

text \<open>A request to create a vertex, and the server after it on \<open>example_empty\<close>.\<close>

definition example_create_vertex :: CreateVertexReqData where
  "example_create_vertex = \<lparr> cv_tx_id = 5, cv_labels = [7], cv_properties = [(2, VInt 4)] \<rparr>"

definition example_created :: UpdatesRpcServer where
  "example_created =
     \<lparr> graph_db = example_db
         \<lparr> vertices := (vertices example_db)
              (4 \<mapsto> \<lparr> payload = \<lparr> v_labels = {7}, v_properties = [2 \<mapsto> VInt 4],
                                   v_out = [], v_in = [] \<rparr>,
                       lock_holder = Some 5, superseded = False, expired = False \<rparr>),
           vertex_generator := 5,
           wal := [StateDelta_CreateVertex 5 4, StateDelta_AddLabel 5 4 7,
                   StateDelta_PropsSetVertex 5 4 2 (VInt 4)] \<rparr>,
       vertex_updates = [(5, \<lparr> db_accessor = 5, deltas = [4 \<mapsto> (4, [])] \<rparr>)],
       edge_updates = [] \<rparr>"

text \<open>
  Three calls of \<^verbatim>\<open>Emplace\<close> for transaction 5, two of them for vertex 1, and the
  updates that result from them.
\<close>

definition example_remove_label :: StateDelta where
  "example_remove_label = (StateDelta_init REMOVE_LABEL 5) \<lparr> vertex_id := 1, label := 7 \<rparr>"

definition example_set_property_2 :: StateDelta where
  "example_set_property_2 =
     (StateDelta_init SET_PROPERTY_VERTEX 5) \<lparr> vertex_id := 2, property := 2, val := VInt 4 \<rparr>"

definition example_calls :: "(GraphDb \<times> StateDelta) list" where
  "example_calls =
     [(example_db, example_add_label), (example_db, example_set_property_2),
      (example_db, example_remove_label)]"

definition example_fifo :: TransactionUpdates where
  "example_fifo =
     \<lparr> db_accessor = 5,
       deltas = [1 \<mapsto> (1, [example_add_label, example_remove_label]),
                 2 \<mapsto> (2, [example_set_property_2])] \<rparr>"

text \<open>
  The server after \<^verbatim>\<open>Apply\<close> for transaction 5 on \<open>example_buffered\<close>, records visited
  in the order 1, 2 and 10.
\<close>

definition example_buffered_applied :: UpdatesRpcServer where
  "example_buffered_applied =
     \<lparr> graph_db = example_db
         \<lparr> vertices := (vertices example_db)
              (1 \<mapsto> \<lparr> payload = \<lparr> v_labels = {7}, v_properties = Map.empty,
                                   v_out = [], v_in = [] \<rparr>,
                       lock_holder = Some 5, superseded = False, expired = False \<rparr>),
           edges := (edges example_db)
              (10 \<mapsto> example_edge \<lparr> lock_holder := Some 5, expired := True \<rparr>),
           wal := [StateDelta_AddLabel 5 1 7, StateDelta_RemoveEdge 5 10] \<rparr>,
       vertex_updates = [], edge_updates = [] \<rparr>"

text \<open>The server after \<^verbatim>\<open>Apply\<close> on \<open>example_structural\<close>, vertex 1 before vertex 3.\<close>

definition example_structural_applied :: UpdatesRpcServer where
  "example_structural_applied =
     \<lparr> graph_db = example_db
         \<lparr> vertices := (vertices example_db)
              (1 \<mapsto> \<lparr> payload = \<lparr> v_labels = {7}, v_properties = Map.empty,
                                   v_out = [(Address 1 2, Address 1 10, 0)], v_in = [] \<rparr>,
                       lock_holder = Some 5, superseded = False, expired = False \<rparr>),
           wal := [StateDelta_AddLabel 5 1 7,
                   StateDelta_AddOutEdge 5 1 (Address 1 2) (Address 1 10) 0] \<rparr>,
       vertex_updates = [], edge_updates = [] \<rparr>"

text \<open>
  The removal of edge 10 and then of vertex 2, if it has no edges, as the handlers
  buffer them for transaction 5; and the server after \<^verbatim>\<open>Apply\<close>, records visited in the
  order 2, 1 and 10.
\<close>

definition example_removal :: UpdatesRpcServer where
  "example_removal =
     \<lparr> graph_db = example_db,
       vertex_updates =
         [(5, \<lparr> db_accessor = 5,
                deltas = [2 \<mapsto> (2, [StateDelta_RemoveOutEdge 5 2 (Address 1 10),
                                     StateDelta_RemoveVertex 5 2 True]),
                          1 \<mapsto> (1, [StateDelta_RemoveInEdge 5 1 (Address 1 10)])] \<rparr>)],
       edge_updates =
         [(5, \<lparr> db_accessor = 5, deltas = [10 \<mapsto> (10, [StateDelta_RemoveEdge 5 10])] \<rparr>)] \<rparr>"

definition example_removal_applied :: UpdatesRpcServer where
  "example_removal_applied =
     \<lparr> graph_db = example_db
         \<lparr> vertices := (vertices example_db)
              (2 \<mapsto> (example_vertex [] (Some 5)) \<lparr> expired := True \<rparr>,
               1 \<mapsto> example_vertex [] (Some 5)),
           edges := (edges example_db)
              (10 \<mapsto> example_edge \<lparr> lock_holder := Some 5, expired := True \<rparr>),
           wal := [StateDelta_RemoveOutEdge 5 2 (Address 1 10),
                   StateDelta_RemoveVertex 5 2 True,
                   StateDelta_RemoveInEdge 5 1 (Address 1 10),
                   StateDelta_RemoveEdge 5 10] \<rparr>,
       vertex_updates = [], edge_updates = [] \<rparr>"

text \<open>
  Updates of transaction 5 for two records: a label for vertex 1, and a property for
  vertex 3, which transaction 9 has locked.  The second database is \<open>example_db\<close> after
  the label has been added.
\<close>

definition example_two_records :: TransactionUpdates where
  "example_two_records =
     \<lparr> db_accessor = 5,
       deltas = [1 \<mapsto> (1, [example_add_label]), 3 \<mapsto> (3, [example_set_property])] \<rparr>"

definition example_labelled :: GraphDb where
  "example_labelled =
     example_db
       \<lparr> vertices := (vertices example_db)
            (1 \<mapsto> \<lparr> payload = \<lparr> v_labels = {7}, v_properties = Map.empty,
                                 v_out = [], v_in = [] \<rparr>,
                     lock_holder = Some 5, superseded = False, expired = False \<rparr>),
         wal := [StateDelta_AddLabel 5 1 7] \<rparr>"

text \<open>The database after the updates \<open>example_fifo\<close>, vertex 2 before vertex 1.\<close>

definition example_fifo_applied :: GraphDb where
  "example_fifo_applied =
     example_db
       \<lparr> vertices := (vertices example_db)
            (2 \<mapsto> \<lparr> payload = \<lparr> v_labels = {}, v_properties = [2 \<mapsto> VInt 4],
                                 v_out = [(Address 1 1, Address 1 10, 0)], v_in = [] \<rparr>,
                     lock_holder = Some 5, superseded = False, expired = False \<rparr>,
             1 \<mapsto> example_vertex [] (Some 5)),
         wal := [StateDelta_PropsSetVertex 5 2 2 (VInt 4), StateDelta_AddLabel 5 1 7,
                 StateDelta_RemoveLabel 5 1 7] \<rparr>"

text \<open>A delta for a vertex that is not in the store.\<close>

definition example_missing :: StateDelta where
  "example_missing = (StateDelta_init ADD_LABEL 5) \<lparr> vertex_id := 99, label := 7 \<rparr>"

lemmas delta_defs = StateDelta_init_def StateDelta_AddOutEdge_def StateDelta_AddInEdge_def
  StateDelta_RemoveVertex_def StateDelta_RemoveEdge_def StateDelta_RemoveOutEdge_def
  StateDelta_RemoveInEdge_def StateDelta_CreateVertex_def StateDelta_CreateEdge_def
  StateDelta_PropsSetVertex_def StateDelta_PropsSetEdge_def StateDelta_AddLabel_def
  StateDelta_RemoveLabel_def

lemmas store_defs = lock_for_update_def modify_vertex_def modify_edge_def
  add_label_def remove_label_def PropsSet_def PropsSet_vertex_def PropsSet_edge_def
  RemoveOutEdge_def RemoveInEdge_def dba_RemoveVertex_def dba_RemoveEdge_def
  wal_Emplace_def emit_def LocalizedAddressIfPossible_def Reconstruct_def
  FindVertex_def FindEdge_def FindAccessor_def InsertVertex_def InsertOnlyEdge_def

lemmas apply_defs = Apply_def apply_collection_def TransactionUpdates_Apply_def
  apply_delta_def try_break_def catch_def access_find_def access_remove_def

lemmas example_defs = example_buffered_def example_structural_def example_empty_def
  example_db_def example_vertex_def example_edge_def example_add_label_def
  example_set_property_def example_missing_def example_create_vertex_def
  example_created_def example_buffered_applied_def example_structural_applied_def
  example_removal_def example_removal_applied_def example_two_records_def
  example_labelled_def example_fifo_applied_def

lemmas sequential_defs = sequential_in_def entries_def expected_result_def write_access_def
  has_edges_def applied_def logged_def vertex_change_def edge_change_def
  lock_for_update_def access_find_def access_remove_def

section \<open>Theorems about the cost estimate\<close>

subsection \<open>The pipeline law\<close>

lemma visit_linear:
  "visit P op (c, k) = (c + k * fst (visit P op (0, 1)), k * snd (visit P op (0, 1)))"
proof (cases op)
  case (Unwind x)
  then show ?thesis by (cases x) simp_all
qed simp_all

lemma estimate_linear:
  "estimate P ops (c, k) =
     (c + k * fst (estimate P ops (0, 1)), k * snd (estimate P ops (0, 1)))"
proof (induction ops arbitrary: c k)
  case Nil
  show ?case by simp
next
  case (Cons op ops)
  obtain c1 k1 where v1: "visit P op (0, 1) = (c1, k1)" by (cases "visit P op (0, 1)")
  have step: "visit P op (c, k) = (c + k * c1, k * k1)"
    using visit_linear [of P op c k] v1 by simp
  have "estimate P (op # ops) (c, k) = estimate P ops (c + k * c1, k * k1)"
    using step by simp
  also have "\<dots> = (c + k * c1 + k * k1 * fst (estimate P ops (0, 1)),
                    k * k1 * snd (estimate P ops (0, 1)))"
    by (rule Cons.IH)
  finally have lhs: "estimate P (op # ops) (c, k) =
      (c + k * c1 + k * k1 * fst (estimate P ops (0, 1)),
       k * k1 * snd (estimate P ops (0, 1)))" .
  have "estimate P (op # ops) (0, 1) = estimate P ops (c1, k1)"
    using v1 by simp
  also have "\<dots> = (c1 + k1 * fst (estimate P ops (0, 1)), k1 * snd (estimate P ops (0, 1)))"
    by (rule Cons.IH)
  finally have rhs: "estimate P (op # ops) (0, 1) =
      (c1 + k1 * fst (estimate P ops (0, 1)), k1 * snd (estimate P ops (0, 1)))" .
  show ?case unfolding lhs rhs by (simp add: algebra_simps)
qed

lemma estimate_append: "estimate P (p @ q) st = estimate P q (estimate P p st)"
  by (induction p arbitrary: st) simp_all

lemma cost_append: "cost P (p @ q) = cost P p + cardinality P p * cost P q"
proof -
  obtain c k where e: "estimate P p (0, 1) = (c, k)" by (cases "estimate P p (0, 1)")
  show ?thesis
    using estimate_linear [of P q c k]
    by (simp add: cost_def cardinality_def estimate_append e)
qed

lemma cardinality_append: "cardinality P (p @ q) = cardinality P p * cardinality P q"
proof -
  obtain c k where e: "estimate P p (0, 1) = (c, k)" by (cases "estimate P p (0, 1)")
  show ?thesis
    using estimate_linear [of P q c k]
    by (simp add: cost_def cardinality_def estimate_append e)
qed

lemma cost_Filter: "cost P [Filter] = kFilter (cost_param P)"
  by (simp add: cost_def)

lemma cardinality_Filter: "cardinality P [Filter] = card_kFilter (card_param P)"
  by (simp add: cardinality_def)

lemma valid_example_params: "valid_params example_params"
  by (simp add: valid_params_def example_params_def)

text \<open>
  Claim C8, as amended.  The cost of a pipeline \<open>p\<close> followed by \<open>q\<close> is the cost of \<open>p\<close>
  plus the cardinality of \<open>p\<close> times the cost of \<open>q\<close>.  With strictly positive constants
  and a filter multiplier below one, appending a \<open>Filter\<close> to a plan whose estimated
  cardinality is strictly positive strictly decreases the cardinality and strictly
  increases the cost.
\<close>

theorem filter_monotone_on_positive_cardinality:
  assumes "valid_params P" and "0 < cardinality P plan"
  shows "cost P (p @ q) = cost P p + cardinality P p * cost P q
       \<and> cardinality P (plan @ [Filter]) < cardinality P plan
       \<and> cost P plan < cost P (plan @ [Filter])"
proof -
  have f: "0 < kFilter (cost_param P)" and m: "card_kFilter (card_param P) < 1"
    using assms(1) by (simp_all add: valid_params_def)
  have "cardinality P plan * card_kFilter (card_param P) < cardinality P plan * 1"
    using assms(2) m by (rule mult_strict_left_mono [rotated])
  then have c1: "cardinality P (plan @ [Filter]) < cardinality P plan"
    by (simp add: cardinality_append cardinality_Filter)
  have "0 < cardinality P plan * kFilter (cost_param P)"
    using assms(2) f by simp
  then have c2: "cost P plan < cost P (plan @ [Filter])"
    by (simp add: cost_append cost_Filter)
  show ?thesis using c1 c2 cost_append by simp
qed

theorem filter_monotone_witness:
  "valid_params example_params
   \<and> 0 < cardinality example_params [ScanAll 100]
   \<and> cost example_params ([ScanAll 100] @ [Expand]) = 700
   \<and> cardinality example_params ([ScanAll 100] @ [Filter]) = 25
   \<and> cost example_params ([ScanAll 100] @ [Filter]) = 250"
proof -
  have v: "valid_params example_params" by (rule valid_example_params)
  have c: "0 < cardinality example_params [ScanAll 100]"
    by (simp add: cardinality_def)
  note t = filter_monotone_on_positive_cardinality
             [OF v c, where p = "[ScanAll 100]" and q = "[Expand]"]
  have e1: "cost example_params ([ScanAll 100] @ [Expand]) = 700"
    by (simp add: cost_def example_params_def)
  have e2: "cardinality example_params ([ScanAll 100] @ [Filter]) = 25"
    by (simp add: cardinality_def example_params_def)
  have e3: "cost example_params ([ScanAll 100] @ [Filter]) = 250"
    by (simp add: cost_def example_params_def)
  show ?thesis using v c t e1 e2 e3 by simp
qed

text \<open>
  Claim C8, as stated, fails on a plan that emits no rows: after an \<open>Unwind\<close> over the
  empty list the cardinality is zero, and a further \<open>Filter\<close> changes neither the
  cardinality nor the cost.
\<close>

theorem filter_not_monotone_on_empty_unwind:
  "valid_params example_params
   \<and> cardinality example_params ([Unwind (Some 0)] @ [Filter])
       = cardinality example_params [Unwind (Some 0)]
   \<and> cost example_params ([Unwind (Some 0)] @ [Filter])
       = cost example_params [Unwind (Some 0)]"
  by (simp add: valid_example_params cardinality_def cost_def)

section \<open>Theorems about the update coordinator\<close>

subsection \<open>The concurrent map\<close>

lemma map_of_insort_key:
  assumes "map_of m k = None"
  shows "map_of (insort_key fst (k, v) m) k' = (if k' = k then Some v else map_of m k')"
  using assms by (induction m) (auto split: if_splits)

lemma access_find_emplace:
  "access_find (access_emplace m tx tu) k =
     (if k = tx \<and> access_find m tx = None then Some tu else access_find m k)"
  by (auto simp: access_emplace_def access_find_def map_of_insort_key split: option.splits)

lemma access_find_assign:
  "access_find (access_assign m tx tu) k =
     (if k = tx \<and> access_find m tx \<noteq> None then Some tu else access_find m k)"
  unfolding access_find_def access_assign_def
  by (induction m) auto

lemma access_find_remove:
  "access_find (access_remove m tx) k = (if k = tx then None else access_find m k)"
  unfolding access_find_def access_remove_def
  by (induction m) auto

lemma GetUpdates_find:
  assumes "GetUpdates m tx = (tu, m')"
  shows "tu = (case access_find m tx of
                 Some x \<Rightarrow> x
               | None \<Rightarrow> \<lparr> db_accessor = tx, deltas = Map.empty \<rparr>)"
    and "access_find m' k = (if k = tx then Some tu else access_find m k)"
  using assms
  by (auto simp: GetUpdates_def Let_def access_find_emplace split: option.splits if_splits)

subsection \<open>Cache eviction\<close>

lemma clear_loop_filter:
  "clear_loop kvs oldest access =
     filter (\<lambda>kv. \<not> (fst kv \<in> fst ` set kvs \<and> fst kv < oldest)) access"
  by (induction kvs arbitrary: access) (auto simp: access_remove_def intro: filter_cong)

lemma clear_loop_self:
  "clear_loop access oldest access = filter (\<lambda>kv. \<not> fst kv < oldest) access"
  unfolding clear_loop_filter by (rule filter_cong) auto

text \<open>
  Claim C9.  \<^verbatim>\<open>ClearTransactionalCache(oldest_active)\<close> leaves in the vertex updates and
  in the edge updates exactly the entries whose transaction id is not less than
  \<open>oldest_active\<close>, in their order and with their buffered deltas as they were, and it
  does not touch the database.
\<close>

theorem ClearTransactionalCache_drops_older:
  "vertex_updates (ClearTransactionalCache s oldest_active)
     = filter (\<lambda>kv. \<not> fst kv < oldest_active) (vertex_updates s)
   \<and> edge_updates (ClearTransactionalCache s oldest_active)
     = filter (\<lambda>kv. \<not> fst kv < oldest_active) (edge_updates s)
   \<and> graph_db (ClearTransactionalCache s oldest_active) = graph_db s"
  by (simp add: ClearTransactionalCache_def clear_loop_self)

theorem ClearTransactionalCache_drops_older_witness:
  "vertex_updates (ClearTransactionalCache
      \<lparr> graph_db = example_db,
        vertex_updates = [(3, \<lparr> db_accessor = 3, deltas = Map.empty \<rparr>),
                          (5, \<lparr> db_accessor = 5, deltas = [1 \<mapsto> (1, [example_add_label])] \<rparr>),
                          (8, \<lparr> db_accessor = 8, deltas = Map.empty \<rparr>)],
        edge_updates = [(4, \<lparr> db_accessor = 4, deltas = Map.empty \<rparr>)] \<rparr> 5)
    = [(5, \<lparr> db_accessor = 5, deltas = [1 \<mapsto> (1, [example_add_label])] \<rparr>),
       (8, \<lparr> db_accessor = 8, deltas = Map.empty \<rparr>)]
   \<and> edge_updates (ClearTransactionalCache
      \<lparr> graph_db = example_db,
        vertex_updates = [(3, \<lparr> db_accessor = 3, deltas = Map.empty \<rparr>),
                          (5, \<lparr> db_accessor = 5, deltas = [1 \<mapsto> (1, [example_add_label])] \<rparr>),
                          (8, \<lparr> db_accessor = 8, deltas = Map.empty \<rparr>)],
        edge_updates = [(4, \<lparr> db_accessor = 4, deltas = Map.empty \<rparr>)] \<rparr> 5)
    = []"
  using ClearTransactionalCache_drops_older
          [of "\<lparr> graph_db = example_db,
        vertex_updates = [(3, \<lparr> db_accessor = 3, deltas = Map.empty \<rparr>),
                          (5, \<lparr> db_accessor = 5, deltas = [1 \<mapsto> (1, [example_add_label])] \<rparr>),
                          (8, \<lparr> db_accessor = 8, deltas = Map.empty \<rparr>)],
        edge_updates = [(4, \<lparr> db_accessor = 4, deltas = Map.empty \<rparr>)] \<rparr>" 5]
  by simp

subsection \<open>The loops of \<^verbatim>\<open>Apply\<close>\<close>

lemma apply_delta_returns:
  "applicable T d \<Longrightarrow> \<exists>r db'. apply_delta T t db acc d = Inr (r, db')"
  by (cases T; cases "type d")
     (auto simp: applicable_def apply_delta_def try_break_def split: sum.splits prod.splits)

lemma log_of_Nil: "log_of DONE [] []"
  by (simp add: log_of_def)

lemma log_of_fail: "r \<noteq> DONE \<Longrightarrow> log_of r (d # ds) [(d, r)]"
  by (simp add: log_of_def)

lemma log_of_Cons: "log_of r ds tr \<Longrightarrow> log_of r (d # ds) ((d, DONE) # tr)"
  by (cases tr) (auto simp: log_of_def split: if_splits)

lemma log_of_append_done:
  assumes "log_of DONE ds1 tr1" and "log_of r ds2 tr2"
  shows "log_of r (ds1 @ ds2) (tr1 @ tr2)"
proof -
  have l1: "length tr1 = length ds1" and a1: "list_all (\<lambda>x. snd x = DONE) tr1"
    and m1: "map fst tr1 = ds1"
    using assms(1) by (auto simp: log_of_def)
  have m: "map fst (tr1 @ tr2) = take (length (tr1 @ tr2)) (ds1 @ ds2)"
    using m1 l1 assms(2) by (simp add: log_of_def)
  have b: "list_all (\<lambda>x. snd x = DONE) (butlast (tr1 @ tr2))"
    using a1 assms(2) by (cases "tr2 = []") (auto simp: log_of_def butlast_append list_all_iff dest: in_set_butlastD)
  show ?thesis
    using m b l1 a1 assms(2) by (auto simp: log_of_def split: if_splits)
qed

lemma log_of_append_fail:
  assumes "r \<noteq> DONE" and "log_of r ds1 tr1"
  shows "log_of r (ds1 @ ds2) tr1"
proof -
  have "map fst tr1 = take (length tr1) ds1"
    using assms(2) by (simp add: log_of_def)
  then have "length (map fst tr1) = length (take (length tr1) ds1)"
    by (rule arg_cong)
  then have "length tr1 \<le> length ds1"
    by simp
  then show ?thesis using assms by (simp add: log_of_def)
qed

lemma first_non_done_append:
  "first_non_done (rs @ rs') =
     (if first_non_done rs \<noteq> DONE then first_non_done rs else first_non_done rs')"
  by (induction rs) (auto simp: first_non_done_def)

lemma first_non_done_all_done:
  "list_all (\<lambda>r. r = DONE) rs \<Longrightarrow> first_non_done rs = DONE"
  by (induction rs) (auto simp: first_non_done_def)

lemma first_non_done_single: "first_non_done [r] = r"
  by (simp add: first_non_done_def)

lemma log_of_first: "log_of r ds tr \<Longrightarrow> first_non_done (map snd tr) = r"
proof (cases tr rule: rev_cases)
  case Nil
  assume "log_of r ds tr"
  then show ?thesis using Nil by (auto simp: log_of_def first_non_done_def split: if_splits)
next
  case (snoc xs x)
  assume l: "log_of r ds tr"
  have b: "list_all (\<lambda>r. r = DONE) (map snd xs)"
    using l snoc by (simp add: log_of_def list_all_iff)
  have x: "snd x = r" using l snoc by (auto simp: log_of_def split: if_splits)
  have "first_non_done (map snd tr) = first_non_done (map snd xs @ [snd x])"
    using snoc by simp
  also have "\<dots> = first_non_done [snd x]"
    unfolding first_non_done_append using first_non_done_all_done [OF b] by simp
  finally show ?thesis using x by (simp add: first_non_done_single)
qed

lemma apply_deltas_log:
  "apply_deltas T t db acc ds = Inr (r, db', tr) \<Longrightarrow> log_of r ds tr"
proof (induction ds arbitrary: db r db' tr)
  case Nil
  then show ?case by (simp add: log_of_Nil)
next
  case (Cons d ds)
  then show ?case
    by (auto split: sum.splits prod.splits if_splits intro: log_of_fail log_of_Cons)
qed

lemma apply_records_log:
  "apply_records T t db m order = Inr (r, db', tr) \<Longrightarrow> log_of r (queued m order) tr"
proof (induction order arbitrary: db r db' tr)
  case Nil
  then show ?case by (simp add: queued_def log_of_Nil)
next
  case (Cons g gs)
  show ?case
  proof (cases "m g")
    case None
    then show ?thesis using Cons by (simp add: queued_def)
  next
    case (Some p)
    obtain acc ds where p: "p = (acc, ds)" by (cases p)
    obtain r1 db1 tr1 where a: "apply_deltas T t db (Reconstruct acc) ds = Inr (r1, db1, tr1)"
      using Cons.prems Some p by (auto split: sum.splits)
    have l1: "log_of r1 ds tr1" using a by (rule apply_deltas_log)
    have q: "queued m (g # gs) = ds @ queued m gs" using Some p by (simp add: queued_def)
    show ?thesis
    proof (cases "r1 = DONE")
      case True
      then obtain tr2 where b: "apply_records T t db1 m gs = Inr (r, db', tr2)" and tr: "tr = tr1 @ tr2"
        using Cons.prems Some p a by (auto split: sum.splits)
      have "log_of r (queued m gs) tr2" using b by (rule Cons.IH)
      then show ?thesis unfolding q tr using l1 True by (auto intro: log_of_append_done)
    next
      case False
      then have "r = r1" "tr = tr1" using Cons.prems Some p a by auto
      then show ?thesis unfolding q using l1 False by (auto intro: log_of_append_fail)
    qed
  qed
qed

lemma apply_deltas_returns:
  "list_all (applicable T) ds \<Longrightarrow> \<exists>r db' tr. apply_deltas T t db acc ds = Inr (r, db', tr)"
proof (induction ds arbitrary: db)
  case Nil
  then show ?case by simp
next
  case (Cons d ds)
  obtain r1 db1 where a: "apply_delta T t db acc d = Inr (r1, db1)"
    using Cons.prems apply_delta_returns [of T d t db acc] by auto
  obtain r2 db2 tr2 where b: "apply_deltas T t db1 acc ds = Inr (r2, db2, tr2)"
    using Cons.prems Cons.IH [of db1] by auto
  show ?case using a b by simp
qed

lemma apply_records_returns:
  assumes "\<And>g acc ds. m g = Some (acc, ds) \<Longrightarrow> list_all (applicable T) ds"
  shows "\<exists>r db' tr. apply_records T t db m order = Inr (r, db', tr)"
proof (induction order arbitrary: db)
  case Nil
  then show ?case by simp
next
  case (Cons g gs)
  show ?case
  proof (cases "m g")
    case None
    then show ?thesis using Cons.IH [of db] by simp
  next
    case (Some p)
    obtain acc ds where p: "p = (acc, ds)" by (cases p)
    have "list_all (applicable T) ds" using assms Some p by simp
    then obtain r1 db1 tr1 where a: "apply_deltas T t db (Reconstruct acc) ds = Inr (r1, db1, tr1)"
      using apply_deltas_returns by blast
    obtain r2 db2 tr2 where b: "apply_records T t db1 m gs = Inr (r2, db2, tr2)"
      using Cons.IH [of db1] by auto
    show ?thesis using Some p a b by simp
  qed
qed

subsection \<open>The result of applying one delta\<close>

lemma apply_delta_applied:
  assumes "applicable T d"
  shows "apply_delta T t db acc d
           = Inr (expected_result T db t acc d,
                  if expected_result T db t acc d = DONE then applied T db t acc d else db)"
  using assms
  by (cases T; cases "type d")
     (auto simp: applicable_def apply_delta_def try_break_def catch_def expected_result_def
        write_access_def has_edges_def applied_def logged_def vertex_change_def
        edge_change_def store_defs case_prod_unfold
        split: option.splits sum.splits exn.splits if_splits)

lemma apply_delta_expected:
  assumes "applicable T d"
  shows "\<exists>db'. apply_delta T t db acc d = Inr (expected_result T db t acc d, db')"
  using apply_delta_applied [OF assms] by simp






subsection \<open>The loops and the sequence of section 4.7\<close>

lemma sequential_append:
  "sequential T t db (xs @ ys) =
     (case sequential T t db xs of
        (r, db', tr) \<Rightarrow>
          if r \<noteq> DONE then (r, db', tr)
          else (case sequential T t db' ys of (r', db'', tr') \<Rightarrow> (r', db'', tr @ tr')))"
  by (induction xs arbitrary: db) (auto split: prod.splits)

lemma apply_deltas_sequential:
  "list_all (applicable T) ds \<Longrightarrow>
     apply_deltas T t db acc ds = Inr (sequential T t db (map (Pair acc) ds))"
  by (induction ds arbitrary: db) (auto simp: apply_delta_applied split: prod.splits)

lemma apply_records_sequential:
  assumes "\<And>g acc ds. m g = Some (acc, ds) \<Longrightarrow> list_all (applicable T) ds"
  shows "apply_records T t db m order = Inr (sequential T t db (entries m order))"
proof (induction order arbitrary: db)
  case Nil
  then show ?case by (simp add: entries_def)
next
  case (Cons g gs)
  show ?case
  proof (cases "m g")
    case None
    then show ?thesis using Cons.IH [of db] by (simp add: entries_def)
  next
    case (Some p)
    obtain acc ds where p: "p = (acc, ds)" by (cases p)
    have a: "list_all (applicable T) ds" using assms Some p by simp
    have e: "entries m (g # gs) = map (Pair acc) ds @ entries m gs"
      using Some p by (simp add: entries_def)
    show ?thesis
      unfolding e sequential_append
      using Some p apply_deltas_sequential [OF a, of t db acc] Cons.IH
      by (auto simp: Reconstruct_def split: prod.splits)
  qed
qed

lemma queued_entries: "map snd (entries m order) = queued m order"
  by (induction order) (auto simp: entries_def queued_def comp_def split: option.splits)

subsection \<open>Applying a collection\<close>

lemma apply_collection_log:
  assumes "apply_collection T order db m tx = Inr (r, db', m', tr)"
  shows "log_of r (queued_in m tx order) tr"
  using assms
  by (auto simp: apply_collection_def queued_in_def TransactionUpdates_Apply_def log_of_Nil
           split: option.splits sum.splits dest: apply_records_log)

lemma apply_collection_removes:
  assumes "apply_collection T order db m tx = Inr (r, db', m', tr)"
  shows "access_find m' tx = None"
  using assms
  by (auto simp: apply_collection_def access_find_remove split: option.splits sum.splits)

lemma apply_collection_absent:
  "access_find m tx = None \<Longrightarrow> apply_collection T order db m tx = Inr (DONE, db, m, [])"
  by (simp add: apply_collection_def)

lemma apply_collection_returns:
  assumes "all_applicable T m tx"
  shows "\<exists>r db' m' tr. apply_collection T order db m tx = Inr (r, db', m', tr)"
proof (cases "access_find m tx")
  case None
  then show ?thesis by (simp add: apply_collection_def)
next
  case (Some tu)
  have "\<And>g acc ds. deltas tu g = Some (acc, ds) \<Longrightarrow> list_all (applicable T) ds"
  proof -
    fix g acc ds
    assume "deltas tu g = Some (acc, ds)"
    then have "buffered m tx g = ds" using Some by (simp add: buffered_def)
    then show "list_all (applicable T) ds" using assms by (auto simp: all_applicable_def)
  qed
  then obtain r db' tr where
    "apply_records T (db_accessor tu) db (deltas tu) order = Inr (r, db', tr)"
    using apply_records_returns [of "deltas tu" T "db_accessor tu" db order] by blast
  then show ?thesis using Some by (simp add: apply_collection_def TransactionUpdates_Apply_def)
qed

lemma access_remove_absent: "access_find m tx = None \<Longrightarrow> access_remove m tx = m"
  by (induction m) (auto simp: access_find_def access_remove_def split: if_splits)

lemma all_applicable_deltas:
  assumes "all_applicable T m tx" and "access_find m tx = Some tu"
    and "deltas tu g = Some (acc, ds)"
  shows "list_all (applicable T) ds"
proof -
  have "buffered m tx g = ds" using assms(2,3) by (simp add: buffered_def)
  then show ?thesis using assms(1) by (auto simp: all_applicable_def)
qed

lemma apply_collection_sequential:
  assumes "all_applicable T m tx"
  shows "apply_collection T order db m tx =
           Inr (case sequential_in T db m tx order of
                  (r, db', tr) \<Rightarrow> (r, db', access_remove m tx, tr))"
proof (cases "access_find m tx")
  case None
  then show ?thesis
    by (simp add: apply_collection_def sequential_in_def access_remove_absent)
next
  case (Some tu)
  have "apply_records T (db_accessor tu) db (deltas tu) order
          = Inr (sequential T (db_accessor tu) db (entries (deltas tu) order))"
    using all_applicable_deltas [OF assms Some] by (intro apply_records_sequential) blast
  then show ?thesis
    using Some
    by (simp add: apply_collection_def sequential_in_def TransactionUpdates_Apply_def
          split: prod.splits)
qed




lemma Apply_split:
  assumes "Apply vo eo s tx = Inr (res, s', tr)"
  obtains vr db1 vu vtr er db2 eu etr where
    "apply_collection VertexAccessor vo (graph_db s) (vertex_updates s) tx = Inr (vr, db1, vu, vtr)"
    "apply_collection EdgeAccessor eo db1 (edge_updates s) tx = Inr (er, db2, eu, etr)"
    "res = (if vr \<noteq> DONE then vr else er)"
    "s' = \<lparr> graph_db = db2, vertex_updates = vu, edge_updates = eu \<rparr>"
    "tr = vtr @ etr"
  using assms by (auto simp: Apply_def split: sum.splits)

lemma example_applicable:
  "all_applicable VertexAccessor (vertex_updates example_buffered) 5"
  "all_applicable EdgeAccessor (edge_updates example_buffered) 5"
  by (simp_all add: all_applicable_def buffered_def access_find_def example_buffered_def
        applicable_def delta_defs example_add_label_def)

lemma example_removal_applicable:
  "all_applicable VertexAccessor (vertex_updates example_removal) 5"
  "all_applicable EdgeAccessor (edge_updates example_removal) 5"
  by (simp_all add: all_applicable_def buffered_def access_find_def example_removal_def
        applicable_def delta_defs)

lemma example_buffered_Apply:
  "Apply [1, 2] [10] example_buffered 5
     = Inr (UNABLE_TO_DELETE_VERTEX_ERROR, example_buffered_applied,
            [(example_add_label, DONE),
             (StateDelta_RemoveVertex 5 2 True, UNABLE_TO_DELETE_VERTEX_ERROR),
             (StateDelta_RemoveEdge 5 10, DONE)])"
  by (simp add: apply_defs store_defs delta_defs example_defs)

lemma example_Apply:
  "\<exists>s'. Apply [1, 2] [10] example_buffered 5
     = Inr (UNABLE_TO_DELETE_VERTEX_ERROR, s',
            [(example_add_label, DONE),
             (StateDelta_RemoveVertex 5 2 True, UNABLE_TO_DELETE_VERTEX_ERROR),
             (StateDelta_RemoveEdge 5 10, DONE)])"
  using example_buffered_Apply by blast

lemma example_RemoveVertexRpc:
  "\<exists>s1 s2. RemoveVertexRpc example_empty \<lparr> rv_tx_id = 5, rv_gid = 2, rv_check_empty = True \<rparr>
             = Inr (DONE, s1)
         \<and> Apply [2] [] s1 5
             = Inr (UNABLE_TO_DELETE_VERTEX_ERROR, s2,
                    [(StateDelta_RemoveVertex 5 2 True, UNABLE_TO_DELETE_VERTEX_ERROR)])"
  by (simp add: RemoveVertexRpc_def GetUpdates_Emplace_def GetUpdates_def access_emplace_def
        access_assign_def Emplace_def apply_defs store_defs delta_defs example_defs Let_def)

lemma example_removal_buffered:
  "\<exists>s1. RemoveEdge example_empty
            \<lparr> re_tx_id = 5, re_edge_id = 10, re_vertex_from_id = 2,
              re_vertex_to_address = Address 1 1 \<rparr> = Inr (DONE, s1)
        \<and> RemoveVertexRpc s1 \<lparr> rv_tx_id = 5, rv_gid = 2, rv_check_empty = True \<rparr>
            = Inr (DONE, example_removal)"
  by (simp add: RemoveEdge_def RemoveVertexRpc_def GetUpdates_Emplace_def GetUpdates_def
        access_emplace_def access_assign_def access_find_def Emplace_def store_defs delta_defs
        example_defs Let_def fun_upd_twist)


text \<open>
  Claim C1.  If every delta buffered for the transaction is of a type that \<^verbatim>\<open>Apply\<close>
  handles for its kind of record, \<^verbatim>\<open>UpdatesRpcServer::Apply\<close> returns, and what it
  returns is what the sequence of section 4.7 gives: the buffered vertex updates are
  applied in iteration order, each delta to the database the earlier ones have left, up
  to the first result other than \<open>DONE\<close> (result \<open>vertex_result\<close>, database \<open>db1\<close>, log
  \<open>vtr\<close>); then, from \<open>db1\<close>, the buffered edge updates in the same way (\<open>edge_result\<close>,
  \<open>db2\<close>, \<open>etr\<close>).  \<^verbatim>\<open>Apply\<close> leaves the database \<open>db2\<close>, has removed the updates of
  the transaction from both collections, and returns the first result other than \<open>DONE\<close>
  of the whole log, or \<open>DONE\<close> if there is none.  Applying one delta gives the result
  and the database of the specification: an exception \<^verbatim>\<open>SerializationError\<close>,
  \<^verbatim>\<open>RecordDeleted\<close> or \<^verbatim>\<open>LockTimeout\<close> of the write access becomes
  \<open>SERIALIZATION_ERROR\<close>, \<open>UPDATE_DELETED_ERROR\<close> or \<open>LOCK_TIMEOUT_ERROR\<close>, a
  \<^verbatim>\<open>REMOVE_VERTEX\<close> with \<open>check_empty\<close> on a vertex that still has edges becomes
  \<open>UNABLE_TO_DELETE_VERTEX_ERROR\<close>, and in these cases the database is unchanged;
  otherwise the result is \<open>DONE\<close> and the database is changed as the delta says.
\<close>

theorem Apply_returns_first_error:
  "(all_applicable VertexAccessor (vertex_updates s) tx_id
      \<and> all_applicable EdgeAccessor (edge_updates s) tx_id
    \<longrightarrow> (\<exists>vertex_result db1 vtr edge_result db2 etr.
           sequential_in VertexAccessor (graph_db s) (vertex_updates s) tx_id vorder
             = (vertex_result, db1, vtr)
           \<and> sequential_in EdgeAccessor db1 (edge_updates s) tx_id eorder
               = (edge_result, db2, etr)
           \<and> Apply vorder eorder s tx_id
               = Inr (first_non_done (map snd (vtr @ etr)),
                      \<lparr> graph_db = db2,
                        vertex_updates = access_remove (vertex_updates s) tx_id,
                        edge_updates = access_remove (edge_updates s) tx_id \<rparr>,
                      vtr @ etr)
           \<and> log_of vertex_result (queued_in (vertex_updates s) tx_id vorder) vtr
           \<and> log_of edge_result (queued_in (edge_updates s) tx_id eorder) etr))
   \<and> (applicable T delta
    \<longrightarrow> apply_delta T t db acc delta
          = Inr (expected_result T db t acc delta,
                 if expected_result T db t acc delta = DONE then applied T db t acc delta
                 else db))"
proof -
  have A: "\<exists>vertex_result db1 vtr edge_result db2 etr.
           sequential_in VertexAccessor (graph_db s) (vertex_updates s) tx_id vorder
             = (vertex_result, db1, vtr)
           \<and> sequential_in EdgeAccessor db1 (edge_updates s) tx_id eorder
               = (edge_result, db2, etr)
           \<and> Apply vorder eorder s tx_id
               = Inr (first_non_done (map snd (vtr @ etr)),
                      \<lparr> graph_db = db2,
                        vertex_updates = access_remove (vertex_updates s) tx_id,
                        edge_updates = access_remove (edge_updates s) tx_id \<rparr>,
                      vtr @ etr)
           \<and> log_of vertex_result (queued_in (vertex_updates s) tx_id vorder) vtr
           \<and> log_of edge_result (queued_in (edge_updates s) tx_id eorder) etr"
    if av: "all_applicable VertexAccessor (vertex_updates s) tx_id"
      and ae: "all_applicable EdgeAccessor (edge_updates s) tx_id"
  proof -
    obtain vr db1 vtr where
      sv: "sequential_in VertexAccessor (graph_db s) (vertex_updates s) tx_id vorder
             = (vr, db1, vtr)"
      by (cases "sequential_in VertexAccessor (graph_db s) (vertex_updates s) tx_id vorder")
    obtain er db2 etr where
      se: "sequential_in EdgeAccessor db1 (edge_updates s) tx_id eorder = (er, db2, etr)"
      by (cases "sequential_in EdgeAccessor db1 (edge_updates s) tx_id eorder")
    have v: "apply_collection VertexAccessor vorder (graph_db s) (vertex_updates s) tx_id
            = Inr (vr, db1, access_remove (vertex_updates s) tx_id, vtr)"
      using apply_collection_sequential [OF av, of vorder "graph_db s"] sv by simp
    have e: "apply_collection EdgeAccessor eorder db1 (edge_updates s) tx_id
            = Inr (er, db2, access_remove (edge_updates s) tx_id, etr)"
      using apply_collection_sequential [OF ae, of eorder db1] se by simp
    have lv: "log_of vr (queued_in (vertex_updates s) tx_id vorder) vtr"
      using v by (rule apply_collection_log)
    have le: "log_of er (queued_in (edge_updates s) tx_id eorder) etr"
      using e by (rule apply_collection_log)
    have f: "first_non_done (map snd (vtr @ etr)) = (if vr \<noteq> DONE then vr else er)"
      using log_of_first [OF lv] log_of_first [OF le] by (simp add: first_non_done_append)
    have "Apply vorder eorder s tx_id
            = Inr (first_non_done (map snd (vtr @ etr)),
                   \<lparr> graph_db = db2,
                     vertex_updates = access_remove (vertex_updates s) tx_id,
                     edge_updates = access_remove (edge_updates s) tx_id \<rparr>, vtr @ etr)"
      unfolding f using v e by (simp add: Apply_def)
    then show ?thesis using sv se lv le by blast
  qed
  show ?thesis using A apply_delta_applied by blast
qed

theorem Apply_returns_first_error_witness:
  "all_applicable VertexAccessor (vertex_updates example_buffered) 5
   \<and> all_applicable EdgeAccessor (edge_updates example_buffered) 5
   \<and> Apply [1, 2] [10] example_buffered 5
       = Inr (UNABLE_TO_DELETE_VERTEX_ERROR, example_buffered_applied,
              [(example_add_label, DONE),
               (StateDelta_RemoveVertex 5 2 True, UNABLE_TO_DELETE_VERTEX_ERROR),
               (StateDelta_RemoveEdge 5 10, DONE)])
   \<and> (\<exists>s1. RemoveEdge example_empty
              \<lparr> re_tx_id = 5, re_edge_id = 10, re_vertex_from_id = 2,
                re_vertex_to_address = Address 1 1 \<rparr> = Inr (DONE, s1)
          \<and> RemoveVertexRpc s1 \<lparr> rv_tx_id = 5, rv_gid = 2, rv_check_empty = True \<rparr>
              = Inr (DONE, example_removal))
   \<and> all_applicable VertexAccessor (vertex_updates example_removal) 5
   \<and> all_applicable EdgeAccessor (edge_updates example_removal) 5
   \<and> Apply [2, 1] [10] example_removal 5
       = Inr (DONE, example_removal_applied,
              [(StateDelta_RemoveOutEdge 5 2 (Address 1 10), DONE),
               (StateDelta_RemoveVertex 5 2 True, DONE),
               (StateDelta_RemoveInEdge 5 1 (Address 1 10), DONE),
               (StateDelta_RemoveEdge 5 10, DONE)])
   \<and> applicable VertexAccessor example_set_property
   \<and> write_access VertexAccessor example_db 5 3 = Some LockTimeoutException
   \<and> apply_delta VertexAccessor 5 example_db 3 example_set_property
       = Inr (LOCK_TIMEOUT_ERROR, example_db)
   \<and> applicable VertexAccessor example_add_label
   \<and> apply_delta VertexAccessor 5 example_db 1 example_add_label
       = Inr (DONE, example_labelled)"
proof -
  have ap: "applicable VertexAccessor example_set_property"
    by (simp add: applicable_def example_set_property_def delta_defs)
  have al: "applicable VertexAccessor example_add_label"
    by (simp add: applicable_def example_add_label_def delta_defs)
  have wa: "write_access VertexAccessor example_db 5 3 = Some LockTimeoutException"
    by (simp add: write_access_def lock_for_update_def example_db_def example_vertex_def)
  have e1: "expected_result VertexAccessor example_db 5 3 example_set_property
              = LOCK_TIMEOUT_ERROR"
    by (simp add: expected_result_def wa example_set_property_def delta_defs)
  have e2: "expected_result VertexAccessor example_db 5 1 example_add_label = DONE"
    by (simp add: sequential_defs example_defs delta_defs)
  have d2: "applied VertexAccessor example_db 5 1 example_add_label = example_labelled"
    by (simp add: sequential_defs example_defs delta_defs)
  have s1: "apply_delta VertexAccessor 5 example_db 3 example_set_property
              = Inr (LOCK_TIMEOUT_ERROR, example_db)"
    using Apply_returns_first_error
            [where T = VertexAccessor and delta = example_set_property and t = 5
               and db = example_db and acc = 3]
          ap e1
    by simp
  have s2: "apply_delta VertexAccessor 5 example_db 1 example_add_label
              = Inr (DONE, example_labelled)"
    using Apply_returns_first_error
            [where T = VertexAccessor and delta = example_add_label and t = 5
               and db = example_db and acc = 1]
          al e2 d2
    by simp
  have v1: "sequential_in VertexAccessor (graph_db example_buffered)
              (vertex_updates example_buffered) 5 [1, 2]
            = (UNABLE_TO_DELETE_VERTEX_ERROR, example_labelled,
               [(example_add_label, DONE),
                (StateDelta_RemoveVertex 5 2 True, UNABLE_TO_DELETE_VERTEX_ERROR)])"
    by (simp add: sequential_defs example_defs delta_defs)
  have v2: "sequential_in EdgeAccessor example_labelled (edge_updates example_buffered) 5 [10]
            = (DONE, graph_db example_buffered_applied, [(StateDelta_RemoveEdge 5 10, DONE)])"
    by (simp add: sequential_defs example_defs delta_defs)
  have u1: "\<lparr> graph_db = graph_db example_buffered_applied,
              vertex_updates = access_remove (vertex_updates example_buffered) 5,
              edge_updates = access_remove (edge_updates example_buffered) 5 \<rparr>
            = example_buffered_applied"
    by (simp add: access_remove_def example_defs)
  have a1: "Apply [1, 2] [10] example_buffered 5
       = Inr (UNABLE_TO_DELETE_VERTEX_ERROR, example_buffered_applied,
              [(example_add_label, DONE),
               (StateDelta_RemoveVertex 5 2 True, UNABLE_TO_DELETE_VERTEX_ERROR),
               (StateDelta_RemoveEdge 5 10, DONE)])"
    using Apply_returns_first_error
            [where s = example_buffered and tx_id = 5 and vorder = "[1, 2]"
               and eorder = "[10]" and T = VertexAccessor and delta = example_set_property]
          example_applicable v1 v2 u1
    by (auto simp: first_non_done_def)
  have w1: "sequential_in VertexAccessor (graph_db example_removal)
              (vertex_updates example_removal) 5 [2, 1]
            = (DONE,
               example_db
                 \<lparr> vertices := (vertices example_db)
                      (2 \<mapsto> (example_vertex [] (Some 5)) \<lparr> expired := True \<rparr>,
                       1 \<mapsto> example_vertex [] (Some 5)),
                   wal := [StateDelta_RemoveOutEdge 5 2 (Address 1 10),
                           StateDelta_RemoveVertex 5 2 True,
                           StateDelta_RemoveInEdge 5 1 (Address 1 10)] \<rparr>,
               [(StateDelta_RemoveOutEdge 5 2 (Address 1 10), DONE),
                (StateDelta_RemoveVertex 5 2 True, DONE),
                (StateDelta_RemoveInEdge 5 1 (Address 1 10), DONE)])"
    by (simp add: sequential_defs example_defs delta_defs)
  have w2: "sequential_in EdgeAccessor
              (example_db
                 \<lparr> vertices := (vertices example_db)
                      (2 \<mapsto> (example_vertex [] (Some 5)) \<lparr> expired := True \<rparr>,
                       1 \<mapsto> example_vertex [] (Some 5)),
                   wal := [StateDelta_RemoveOutEdge 5 2 (Address 1 10),
                           StateDelta_RemoveVertex 5 2 True,
                           StateDelta_RemoveInEdge 5 1 (Address 1 10)] \<rparr>)
              (edge_updates example_removal) 5 [10]
            = (DONE, graph_db example_removal_applied, [(StateDelta_RemoveEdge 5 10, DONE)])"
    by (simp add: sequential_defs example_defs delta_defs)
  have u2: "\<lparr> graph_db = graph_db example_removal_applied,
              vertex_updates = access_remove (vertex_updates example_removal) 5,
              edge_updates = access_remove (edge_updates example_removal) 5 \<rparr>
            = example_removal_applied"
    by (simp add: access_remove_def example_defs)
  have a2: "Apply [2, 1] [10] example_removal 5
       = Inr (DONE, example_removal_applied,
              [(StateDelta_RemoveOutEdge 5 2 (Address 1 10), DONE),
               (StateDelta_RemoveVertex 5 2 True, DONE),
               (StateDelta_RemoveInEdge 5 1 (Address 1 10), DONE),
               (StateDelta_RemoveEdge 5 10, DONE)])"
    using Apply_returns_first_error
            [where s = example_removal and tx_id = 5 and vorder = "[2, 1]"
               and eorder = "[10]" and T = VertexAccessor and delta = example_set_property]
          example_removal_applicable w1 w2 u2
    by (auto simp: first_non_done_def)
  show ?thesis
    using example_applicable example_removal_applicable example_removal_buffered
      a1 a2 ap al wa s1 s2
    by simp
qed




text \<open>
  Claim C10.  \<^verbatim>\<open>UpdatesRpcServer::Apply\<close> for a transaction without buffered updates
  returns \<open>DONE\<close> and changes nothing.  Whenever it returns, with \<open>DONE\<close> or with an
  error, the transaction has no entry left in the vertex updates or in the edge updates,
  so that a second call for the same transaction returns \<open>DONE\<close>, applies no delta and
  changes nothing.
\<close>

theorem Apply_removes_updates:
  "(access_find (vertex_updates s) tx_id = None \<and> access_find (edge_updates s) tx_id = None
      \<longrightarrow> Apply vorder eorder s tx_id = Inr (DONE, s, []))
   \<and> (Apply vorder eorder s tx_id = Inr (res, s', tr)
      \<longrightarrow> access_find (vertex_updates s') tx_id = None
        \<and> access_find (edge_updates s') tx_id = None
        \<and> Apply vorder' eorder' s' tx_id = Inr (DONE, s', []))"
proof -
  have absent: "Apply vo eo u tx_id = Inr (DONE, u, [])"
    if "access_find (vertex_updates u) tx_id = None"
       "access_find (edge_updates u) tx_id = None" for vo eo u
    using that by (simp add: Apply_def apply_collection_absent)
  have after: "access_find (vertex_updates s') tx_id = None
             \<and> access_find (edge_updates s') tx_id = None"
    if a: "Apply vorder eorder s tx_id = Inr (res, s', tr)"
  proof -
    from a obtain vr db1 vu vtr er db2 eu etr where
      v: "apply_collection VertexAccessor vorder (graph_db s) (vertex_updates s) tx_id
            = Inr (vr, db1, vu, vtr)"
      and e: "apply_collection EdgeAccessor eorder db1 (edge_updates s) tx_id
            = Inr (er, db2, eu, etr)"
      and s': "s' = \<lparr> graph_db = db2, vertex_updates = vu, edge_updates = eu \<rparr>"
      by (rule Apply_split)
    show ?thesis
      using apply_collection_removes [OF v] apply_collection_removes [OF e] s' by simp
  qed
  show ?thesis using absent after by blast
qed

theorem Apply_removes_updates_witness:
  "(\<exists>s'. Apply [1, 2] [10] example_buffered 5
          = Inr (UNABLE_TO_DELETE_VERTEX_ERROR, s',
                 [(example_add_label, DONE),
                  (StateDelta_RemoveVertex 5 2 True, UNABLE_TO_DELETE_VERTEX_ERROR),
                  (StateDelta_RemoveEdge 5 10, DONE)])
        \<and> access_find (vertex_updates example_buffered) 5 \<noteq> None
        \<and> access_find (vertex_updates s') 5 = None
        \<and> access_find (edge_updates s') 5 = None
        \<and> Apply [2, 1] [10] s' 5 = Inr (DONE, s', []))
   \<and> access_find (vertex_updates example_empty) 5 = None
   \<and> access_find (edge_updates example_empty) 5 = None
   \<and> Apply [] [] example_empty 5 = Inr (DONE, example_empty, [])"
proof -
  obtain s' where a: "Apply [1, 2] [10] example_buffered 5
          = Inr (UNABLE_TO_DELETE_VERTEX_ERROR, s',
                 [(example_add_label, DONE),
                  (StateDelta_RemoveVertex 5 2 True, UNABLE_TO_DELETE_VERTEX_ERROR),
                  (StateDelta_RemoveEdge 5 10, DONE)])"
    using example_Apply by blast
  have present: "access_find (vertex_updates example_buffered) 5 \<noteq> None"
    by (simp add: access_find_def example_buffered_def)
  have e1: "access_find (vertex_updates example_empty) 5 = None"
    and e2: "access_find (edge_updates example_empty) 5 = None"
    by (simp_all add: access_find_def example_empty_def)
  note t1 = Apply_removes_updates
              [where s = example_buffered and tx_id = 5 and vorder = "[1, 2]"
                 and eorder = "[10]" and res = UNABLE_TO_DELETE_VERTEX_ERROR and s' = s'
                 and vorder' = "[2, 1]" and eorder' = "[10]"]
  note t2 = Apply_removes_updates
              [where s = example_empty and tx_id = 5 and vorder = "[]" and eorder = "[]"]
  have "Apply [] [] example_empty 5 = Inr (DONE, example_empty, [])"
    using t2 e1 e2 by simp
  moreover have "access_find (vertex_updates s') 5 = None
        \<and> access_find (edge_updates s') 5 = None
        \<and> Apply [2, 1] [10] s' 5 = Inr (DONE, s', [])"
    using t1 a by simp
  ultimately show ?thesis using a present e1 e2 by blast
qed

subsection \<open>Buffering a delta\<close>

lemma FindAccessor_cases:
  "FindAccessor T db g = (if in_store T db g then Inr g else Inl NotFound)"
  by (cases T) (auto simp: FindAccessor_def FindVertex_def FindEdge_def in_store_def)

lemma Emplace_eq:
  "Emplace T db tu d =
     (if deltas tu (record_id T d) \<noteq> None \<or> in_store T db (record_id T d)
      then Inr (DONE, emplaced tu (record_id T d) d) else Inl NotFound)"
  by (auto simp: Emplace_def Let_def record_id_def emplaced_def FindAccessor_cases
           split: option.splits)

lemma GetUpdates_eq:
  "GetUpdates m tx = (tu, m') \<Longrightarrow> tu = updates_or_new m tx"
  "GetUpdates m tx = (tu, m') \<Longrightarrow>
     access_find m' k = (if k = tx then Some (updates_or_new m tx) else access_find m k)"
  using GetUpdates_find [of m tx tu m'] by (simp_all add: updates_or_new_def)

lemma has_record_updates_or_new:
  "has_record m tx g \<longleftrightarrow> deltas (updates_or_new m tx) g \<noteq> None"
  by (simp add: has_record_def updates_or_new_def split: option.splits)

lemma GetUpdates_Emplace_eq:
  "GetUpdates_Emplace T db m tx d =
     (if obtainable T db m tx (record_id T d)
      then Inr (DONE, access_assign (snd (GetUpdates m tx)) tx
                        (emplaced (updates_or_new m tx) (record_id T d) d))
      else Inl NotFound)"
proof -
  obtain tu m' where g: "GetUpdates m tx = (tu, m')" by (cases "GetUpdates m tx")
  have tu: "tu = updates_or_new m tx" using g by (rule GetUpdates_eq)
  show ?thesis
    using g tu
    by (simp add: GetUpdates_Emplace_def Emplace_eq obtainable_def has_record_updates_or_new)
qed

lemma access_find_after_Emplace:
  "access_find (access_assign (snd (GetUpdates m tx)) tx tu') k =
     (if k = tx then Some tu' else access_find m k)"
proof -
  obtain tu m' where g: "GetUpdates m tx = (tu, m')" by (cases "GetUpdates m tx")
  show ?thesis
    using GetUpdates_eq(2) [OF g] g by (simp add: access_find_assign)
qed

lemma buffered_after_Emplace:
  "buffered (access_assign (snd (GetUpdates m tx)) tx (emplaced (updates_or_new m tx) g d)) tx' g' =
     buffered m tx' g' @ (if tx' = tx \<and> g' = g then [d] else [])"
  by (auto simp: buffered_def access_find_after_Emplace emplaced_def updates_or_new_def
           split: option.splits)

lemma has_record_after_Emplace:
  "has_record (access_assign (snd (GetUpdates m tx)) tx (emplaced (updates_or_new m tx) g d)) tx' g' =
     (has_record m tx' g' \<or> (tx' = tx \<and> g' = g))"
  by (auto simp: has_record_def access_find_after_Emplace emplaced_def updates_or_new_def
           split: option.splits)

lemma GetUpdates_Emplace_ok:
  assumes "obtainable T db m tx (record_id T d)"
  shows "\<exists>m'. GetUpdates_Emplace T db m tx d = Inr (DONE, m')
           \<and> (\<forall>tx' g'. buffered m' tx' g' =
                 buffered m tx' g' @ (if tx' = tx \<and> g' = record_id T d then [d] else []))
           \<and> (\<forall>tx' g'. has_record m' tx' g' =
                 (has_record m tx' g' \<or> (tx' = tx \<and> g' = record_id T d)))
           \<and> (\<forall>k. access_find m' k =
                 (if k = tx then Some (emplaced (updates_or_new m tx) (record_id T d) d)
                  else access_find m k))"
  using assms
  by (simp add: GetUpdates_Emplace_eq buffered_after_Emplace has_record_after_Emplace
        access_find_after_Emplace)

lemma catch_not_DONE: "catch e \<noteq> DONE"
  by (cases e) (simp_all add: catch_def)

lemma expected_result_raise:
  assumes "write_access T db t g = Some e" and "type d \<noteq> REMOVE_VERTEX"
  shows "expected_result T db t g d = catch e"
  using assms by (cases e) (simp_all add: expected_result_def catch_def)

lemma update_kind_applicable: "update_kind d = Some T \<Longrightarrow> applicable T d"
  by (cases T) (auto simp: update_kind_def applicable_def split: if_splits)

lemma update_kind_not_remove: "update_kind d = Some T \<Longrightarrow> type d \<noteq> REMOVE_VERTEX"
  by (auto simp: update_kind_def split: if_splits)

lemma UpdateRpc_eq:
  assumes "update_kind delta = Some T"
  shows "UpdateRpc s delta =
     (case GetUpdates_Emplace T (graph_db s) (updates_of T s) (transaction_id delta) delta of
        Inl f \<Rightarrow> Inl f
      | Inr (r, m') \<Rightarrow>
          Inr (r, case T of VertexAccessor \<Rightarrow> s \<lparr> vertex_updates := m' \<rparr>
                          | EdgeAccessor \<Rightarrow> s \<lparr> edge_updates := m' \<rparr>))"
  using assms
  by (cases T) (auto simp: update_kind_def UpdateRpc_def updates_of_def split: if_splits sum.splits)

lemma apply_single_record:
  assumes "apply_delta T t db g d = Inr (r, db')"
  shows "apply_records T t db [g \<mapsto> (g, [d])] [g] = Inr (r, db', [(d, r)])"
  using assms by (simp add: Reconstruct_def)

lemma UpdateRpc_ok:
  assumes k: "update_kind delta = Some T"
    and ob: "obtainable T (graph_db s) (updates_of T s) (transaction_id delta) (record_id T delta)"
  shows "\<exists>s'. UpdateRpc s delta = Inr (DONE, s') \<and> graph_db s' = graph_db s
           \<and> (\<forall>T' tx g. buffered (updates_of T' s') tx g =
                 buffered (updates_of T' s) tx g
                   @ (if T' = T \<and> tx = transaction_id delta \<and> g = record_id T delta
                      then [delta] else []))
           \<and> (\<forall>k. access_find (updates_of T s') k =
                 (if k = transaction_id delta
                  then Some (emplaced (updates_or_new (updates_of T s) (transaction_id delta))
                               (record_id T delta) delta)
                  else access_find (updates_of T s) k))
           \<and> (\<forall>T'. T' \<noteq> T \<longrightarrow> updates_of T' s' = updates_of T' s)"
proof -
  obtain m' where e: "GetUpdates_Emplace T (graph_db s) (updates_of T s) (transaction_id delta) delta
                        = Inr (DONE, m')"
    and b: "\<forall>tx' g'. buffered m' tx' g' =
                 buffered (updates_of T s) tx' g'
                   @ (if tx' = transaction_id delta \<and> g' = record_id T delta then [delta] else [])"
    and f: "\<forall>k. access_find m' k =
                 (if k = transaction_id delta
                  then Some (emplaced (updates_or_new (updates_of T s) (transaction_id delta))
                               (record_id T delta) delta)
                  else access_find (updates_of T s) k)"
    using GetUpdates_Emplace_ok [OF ob] by blast
  show ?thesis
  proof (cases T)
    case VertexAccessor
    have "UpdateRpc s delta = Inr (DONE, s \<lparr> vertex_updates := m' \<rparr>)"
      using UpdateRpc_eq [OF k] e VertexAccessor by simp
    moreover have "\<forall>T' tx g. buffered (updates_of T' (s \<lparr> vertex_updates := m' \<rparr>)) tx g =
                 buffered (updates_of T' s) tx g
                   @ (if T' = T \<and> tx = transaction_id delta \<and> g = record_id T delta
                      then [delta] else [])"
    proof (intro allI)
      fix T' tx g
      show "buffered (updates_of T' (s \<lparr> vertex_updates := m' \<rparr>)) tx g =
                 buffered (updates_of T' s) tx g
                   @ (if T' = T \<and> tx = transaction_id delta \<and> g = record_id T delta
                      then [delta] else [])"
        using b VertexAccessor by (cases T') (simp_all add: updates_of_def)
    qed
    moreover have "\<forall>T'. T' \<noteq> T \<longrightarrow> updates_of T' (s \<lparr> vertex_updates := m' \<rparr>) = updates_of T' s"
    proof (intro allI impI)
      fix T' :: TRecordAccessor
      assume "T' \<noteq> T"
      then show "updates_of T' (s \<lparr> vertex_updates := m' \<rparr>) = updates_of T' s"
        using VertexAccessor by (cases T') (simp_all add: updates_of_def)
    qed
    ultimately show ?thesis using f VertexAccessor by (simp add: updates_of_def)
  next
    case EdgeAccessor
    have "UpdateRpc s delta = Inr (DONE, s \<lparr> edge_updates := m' \<rparr>)"
      using UpdateRpc_eq [OF k] e EdgeAccessor by simp
    moreover have "\<forall>T' tx g. buffered (updates_of T' (s \<lparr> edge_updates := m' \<rparr>)) tx g =
                 buffered (updates_of T' s) tx g
                   @ (if T' = T \<and> tx = transaction_id delta \<and> g = record_id T delta
                      then [delta] else [])"
    proof (intro allI)
      fix T' tx g
      show "buffered (updates_of T' (s \<lparr> edge_updates := m' \<rparr>)) tx g =
                 buffered (updates_of T' s) tx g
                   @ (if T' = T \<and> tx = transaction_id delta \<and> g = record_id T delta
                      then [delta] else [])"
        using b EdgeAccessor by (cases T') (simp_all add: updates_of_def)
    qed
    moreover have "\<forall>T'. T' \<noteq> T \<longrightarrow> updates_of T' (s \<lparr> edge_updates := m' \<rparr>) = updates_of T' s"
    proof (intro allI impI)
      fix T' :: TRecordAccessor
      assume "T' \<noteq> T"
      then show "updates_of T' (s \<lparr> edge_updates := m' \<rparr>) = updates_of T' s"
        using EdgeAccessor by (cases T') (simp_all add: updates_of_def)
    qed
    ultimately show ?thesis using f EdgeAccessor by (simp add: updates_of_def)
  qed
qed

lemma UpdateRpc_fail:
  assumes k: "update_kind delta = Some T"
    and ob: "\<not> obtainable T (graph_db s) (updates_of T s) (transaction_id delta) (record_id T delta)"
  shows "UpdateRpc s delta = Inl NotFound"
  using UpdateRpc_eq [OF k] ob by (simp add: GetUpdates_Emplace_eq)

lemma Apply_after_first_update:
  assumes k: "update_kind delta = Some T"
    and st: "in_store T (graph_db s) (record_id T delta)"
    and nv: "access_find (vertex_updates s) (transaction_id delta) = None"
    and ne: "access_find (edge_updates s) (transaction_id delta) = None"
    and wa: "write_access T (graph_db s) (transaction_id delta) (record_id T delta) = Some e"
  shows "\<exists>s' s''. UpdateRpc s delta = Inr (DONE, s')
           \<and> Apply [record_id T delta] [record_id T delta] s' (transaction_id delta)
               = Inr (catch e, s'', [(delta, catch e)])"
proof -
  let ?tx = "transaction_id delta" and ?g = "record_id T delta"
  have ob: "obtainable T (graph_db s) (updates_of T s) ?tx ?g"
    using st by (simp add: obtainable_def)
  obtain s' where u: "UpdateRpc s delta = Inr (DONE, s')" and db: "graph_db s' = graph_db s"
    and f: "\<forall>k. access_find (updates_of T s') k =
                 (if k = ?tx then Some (emplaced (updates_or_new (updates_of T s) ?tx) ?g delta)
                  else access_find (updates_of T s) k)"
    and o: "\<forall>T'. T' \<noteq> T \<longrightarrow> updates_of T' s' = updates_of T' s"
    using UpdateRpc_ok [OF k ob] by blast
  have none: "access_find (updates_of T s) ?tx = None"
    using nv ne by (cases T) (simp_all add: updates_of_def)
  have tu: "access_find (updates_of T s') ?tx
              = Some \<lparr> db_accessor = ?tx, deltas = [?g \<mapsto> (?g, [delta])] \<rparr>"
    using f none by (simp add: emplaced_def updates_or_new_def)
  obtain db' where a: "apply_delta T ?tx (graph_db s) ?g delta = Inr (catch e, db')"
    using apply_delta_expected [OF update_kind_applicable [OF k], of ?tx "graph_db s" ?g]
      expected_result_raise [OF wa update_kind_not_remove [OF k]] by auto
  note r = apply_single_record [OF a]
  show ?thesis
  proof (cases T)
    case VertexAccessor
    have tv: "access_find (vertex_updates s') ?tx
                = Some \<lparr> db_accessor = ?tx, deltas = [?g \<mapsto> (?g, [delta])] \<rparr>"
      using tu VertexAccessor by (simp add: updates_of_def)
    have te: "access_find (edge_updates s') ?tx = None"
      using o ne VertexAccessor by (auto simp: updates_of_def dest: spec [of _ EdgeAccessor])
    have "\<exists>s''. Apply [?g] [?g] s' ?tx = Inr (catch e, s'', [(delta, catch e)])"
      using tv te r db VertexAccessor catch_not_DONE [of e]
      by (simp add: Apply_def apply_collection_def TransactionUpdates_Apply_def)
    then show ?thesis using u by blast
  next
    case EdgeAccessor
    have te: "access_find (edge_updates s') ?tx
                = Some \<lparr> db_accessor = ?tx, deltas = [?g \<mapsto> (?g, [delta])] \<rparr>"
      using tu EdgeAccessor by (simp add: updates_of_def)
    have tv: "access_find (vertex_updates s') ?tx = None"
      using o nv EdgeAccessor by (auto simp: updates_of_def dest: spec [of _ VertexAccessor])
    have "\<exists>s''. Apply [?g] [?g] s' ?tx = Inr (catch e, s'', [(delta, catch e)])"
      using tv te r db EdgeAccessor catch_not_DONE [of e]
      by (simp add: Apply_def apply_collection_def TransactionUpdates_Apply_def)
    then show ?thesis using u by blast
  qed
qed

text \<open>
  Claim C3.  For a delta of a type that the handler of \<^verbatim>\<open>UpdateRpc\<close> accepts, filed under
  the kind \<open>T\<close> of its record: if an accessor for the record can be obtained (the
  transaction has an entry for it, or the store has the record), the call returns
  \<open>DONE\<close>, leaves the database as it is and appends the delta to the queue of its record
  in the updates of its transaction, all other queues unchanged; otherwise the lookup of
  the record fails.  Nothing is detected at that point: if the write access to the
  record raises an exception, the call still returns \<open>DONE\<close>, and the error code of the
  exception is what \<^verbatim>\<open>Apply\<close> returns afterwards.
\<close>

theorem UpdateRpc_enqueues_without_eager_errors:
  assumes "update_kind delta = Some T"
  shows "(obtainable T (graph_db s) (updates_of T s) (transaction_id delta) (record_id T delta)
          \<longrightarrow> (\<exists>s'. UpdateRpc s delta = Inr (DONE, s') \<and> graph_db s' = graph_db s
                 \<and> (\<forall>T' tx g. buffered (updates_of T' s') tx g =
                       buffered (updates_of T' s) tx g
                         @ (if T' = T \<and> tx = transaction_id delta \<and> g = record_id T delta
                            then [delta] else []))))
       \<and> (\<not> obtainable T (graph_db s) (updates_of T s) (transaction_id delta)
                (record_id T delta)
          \<longrightarrow> UpdateRpc s delta = Inl NotFound)
       \<and> (in_store T (graph_db s) (record_id T delta)
            \<and> access_find (vertex_updates s) (transaction_id delta) = None
            \<and> access_find (edge_updates s) (transaction_id delta) = None
            \<and> write_access T (graph_db s) (transaction_id delta) (record_id T delta) = Some e
          \<longrightarrow> (\<exists>s' s''. UpdateRpc s delta = Inr (DONE, s')
                 \<and> Apply [record_id T delta] [record_id T delta] s' (transaction_id delta)
                     = Inr (catch e, s'', [(delta, catch e)])))"
proof (intro conjI impI)
  assume "obtainable T (graph_db s) (updates_of T s) (transaction_id delta) (record_id T delta)"
  from UpdateRpc_ok [OF assms this]
  show "\<exists>s'. UpdateRpc s delta = Inr (DONE, s') \<and> graph_db s' = graph_db s
                 \<and> (\<forall>T' tx g. buffered (updates_of T' s') tx g =
                       buffered (updates_of T' s) tx g
                         @ (if T' = T \<and> tx = transaction_id delta \<and> g = record_id T delta
                            then [delta] else []))"
    by blast
next
  assume "\<not> obtainable T (graph_db s) (updates_of T s) (transaction_id delta) (record_id T delta)"
  then show "UpdateRpc s delta = Inl NotFound" by (rule UpdateRpc_fail [OF assms])
next
  assume "in_store T (graph_db s) (record_id T delta)
            \<and> access_find (vertex_updates s) (transaction_id delta) = None
            \<and> access_find (edge_updates s) (transaction_id delta) = None
            \<and> write_access T (graph_db s) (transaction_id delta) (record_id T delta) = Some e"
  then show "\<exists>s' s''. UpdateRpc s delta = Inr (DONE, s')
                 \<and> Apply [record_id T delta] [record_id T delta] s' (transaction_id delta)
                     = Inr (catch e, s'', [(delta, catch e)])"
    using Apply_after_first_update [OF assms] by blast
qed

theorem UpdateRpc_enqueues_without_eager_errors_witness:
  "update_kind example_set_property = Some VertexAccessor
   \<and> record_id VertexAccessor example_set_property = 3
   \<and> in_store VertexAccessor (graph_db example_empty) 3
   \<and> write_access VertexAccessor (graph_db example_empty) 5 3 = Some LockTimeoutException
   \<and> (\<exists>s' s''. UpdateRpc example_empty example_set_property = Inr (DONE, s')
         \<and> buffered (vertex_updates s') 5 3 = [example_set_property]
         \<and> Apply [3] [3] s' 5
             = Inr (LOCK_TIMEOUT_ERROR, s'', [(example_set_property, LOCK_TIMEOUT_ERROR)]))
   \<and> update_kind example_missing = Some VertexAccessor
   \<and> \<not> obtainable VertexAccessor (graph_db example_empty) (vertex_updates example_empty) 5 99
   \<and> UpdateRpc example_empty example_missing = Inl NotFound"
proof -
  have k: "update_kind example_set_property = Some VertexAccessor"
    by (simp add: update_kind_def example_set_property_def delta_defs)
  have g: "record_id VertexAccessor example_set_property = 3"
    and tx: "transaction_id example_set_property = 5"
    by (simp_all add: record_id_def example_set_property_def delta_defs)
  have st: "in_store VertexAccessor (graph_db example_empty) 3"
    by (simp add: in_store_def example_defs)
  have wa: "write_access VertexAccessor (graph_db example_empty) 5 3 = Some LockTimeoutException"
    by (simp add: write_access_def lock_for_update_def example_defs)
  have nv: "access_find (vertex_updates example_empty) 5 = None"
    and ne: "access_find (edge_updates example_empty) 5 = None"
    by (simp_all add: access_find_def example_empty_def)
  have b0: "buffered (updates_of VertexAccessor example_empty) 5 3 = []"
    by (simp add: buffered_def updates_of_def nv)
  have ob: "obtainable VertexAccessor (graph_db example_empty)
              (updates_of VertexAccessor example_empty) 5 3"
    using st by (simp add: obtainable_def)
  note t = UpdateRpc_enqueues_without_eager_errors
             [OF k, where s = example_empty and e = LockTimeoutException]
  obtain s1 where u1: "UpdateRpc example_empty example_set_property = Inr (DONE, s1)"
    and b1: "buffered (updates_of VertexAccessor s1) 5 3 = [example_set_property]"
    using t ob b0 g tx by auto
  obtain s2 s'' where u2: "UpdateRpc example_empty example_set_property = Inr (DONE, s2)"
    and a2: "Apply [3] [3] s2 5
               = Inr (LOCK_TIMEOUT_ERROR, s'', [(example_set_property, LOCK_TIMEOUT_ERROR)])"
    using t st nv ne wa g tx by (auto simp: catch_def)
  have same: "s2 = s1" using u1 u2 by simp
  have first: "\<exists>s' s''. UpdateRpc example_empty example_set_property = Inr (DONE, s')
         \<and> buffered (vertex_updates s') 5 3 = [example_set_property]
         \<and> Apply [3] [3] s' 5
             = Inr (LOCK_TIMEOUT_ERROR, s'', [(example_set_property, LOCK_TIMEOUT_ERROR)])"
    using u1 b1 a2 same by (auto simp: updates_of_def)
  have k2: "update_kind example_missing = Some VertexAccessor"
    by (simp add: update_kind_def example_missing_def delta_defs)
  have nob: "\<not> obtainable VertexAccessor (graph_db example_empty)
               (vertex_updates example_empty) 5 99"
    by (simp add: obtainable_def has_record_def in_store_def access_find_def example_defs)
  have "UpdateRpc example_empty example_missing = Inl NotFound"
    using UpdateRpc_enqueues_without_eager_errors [OF k2, where s = example_empty] nob
    by (simp add: updates_of_def record_id_def example_missing_def delta_defs)
  then show ?thesis using k g st wa first k2 nob by simp
qed

subsection \<open>Removing and creating edges\<close>

lemma record_id_factories:
  "record_id EdgeAccessor (StateDelta_RemoveEdge tx e) = e"
  "record_id VertexAccessor (StateDelta_RemoveOutEdge tx v a) = v"
  "record_id VertexAccessor (StateDelta_RemoveInEdge tx v a) = v"
  "record_id VertexAccessor (StateDelta_AddOutEdge tx v ta ea et) = v"
  "record_id VertexAccessor (StateDelta_AddInEdge tx v fa ea et) = v"
  "record_id VertexAccessor (StateDelta_RemoveVertex tx v ce) = v"
  by (simp_all add: record_id_def delta_defs)

lemma RemoveEdge_ok:
  assumes oe: "obtainable EdgeAccessor (graph_db s) (edge_updates s) (re_tx_id data)
                 (re_edge_id data)"
    and ov: "obtainable VertexAccessor (graph_db s) (vertex_updates s) (re_tx_id data)
                 (re_vertex_from_id data)"
    and ot: "worker_id (re_vertex_to_address data) = WorkerId (graph_db s)
             \<longrightarrow> obtainable VertexAccessor (graph_db s) (vertex_updates s) (re_tx_id data)
                   (gid (re_vertex_to_address data))"
  shows "\<exists>s'. RemoveEdge s data = Inr (DONE, s') \<and> graph_db s' = graph_db s
           \<and> (\<forall>tx g. buffered (edge_updates s') tx g =
                 buffered (edge_updates s) tx g
                   @ (if tx = re_tx_id data \<and> g = re_edge_id data
                      then [StateDelta_RemoveEdge (re_tx_id data) (re_edge_id data)] else []))
           \<and> (\<forall>tx g. buffered (vertex_updates s') tx g =
                 buffered (vertex_updates s) tx g
                   @ (if tx = re_tx_id data \<and> g = re_vertex_from_id data
                      then [StateDelta_RemoveOutEdge (re_tx_id data) (re_vertex_from_id data)
                              (Address (WorkerId (graph_db s)) (re_edge_id data))]
                      else [])
                   @ (if tx = re_tx_id data
                         \<and> worker_id (re_vertex_to_address data) = WorkerId (graph_db s)
                         \<and> g = gid (re_vertex_to_address data)
                      then [StateDelta_RemoveInEdge (re_tx_id data)
                              (gid (re_vertex_to_address data))
                              (Address (WorkerId (graph_db s)) (re_edge_id data))]
                      else []))"
proof -
  let ?tx = "re_tx_id data" and ?db = "graph_db s" and ?W = "WorkerId (graph_db s)"
  let ?d1 = "StateDelta_RemoveEdge ?tx (re_edge_id data)"
  let ?d2 = "StateDelta_RemoveOutEdge ?tx (re_vertex_from_id data) (Address ?W (re_edge_id data))"
  let ?d3 = "StateDelta_RemoveInEdge ?tx (gid (re_vertex_to_address data))
               (Address ?W (re_edge_id data))"
  obtain eu where e1: "GetUpdates_Emplace EdgeAccessor ?db (edge_updates s) ?tx ?d1 = Inr (DONE, eu)"
    and b1: "\<forall>tx g. buffered eu tx g = buffered (edge_updates s) tx g
                 @ (if tx = ?tx \<and> g = re_edge_id data then [?d1] else [])"
    using GetUpdates_Emplace_ok [of EdgeAccessor ?db "edge_updates s" ?tx ?d1] oe
    by (auto simp: record_id_factories)
  obtain vu where e2: "GetUpdates_Emplace VertexAccessor ?db (vertex_updates s) ?tx ?d2 = Inr (DONE, vu)"
    and b2: "\<forall>tx g. buffered vu tx g = buffered (vertex_updates s) tx g
                 @ (if tx = ?tx \<and> g = re_vertex_from_id data then [?d2] else [])"
    and h2: "\<forall>tx g. has_record vu tx g =
                 (has_record (vertex_updates s) tx g \<or> (tx = ?tx \<and> g = re_vertex_from_id data))"
    using GetUpdates_Emplace_ok [of VertexAccessor ?db "vertex_updates s" ?tx ?d2] ov
    by (auto simp: record_id_factories)
  show ?thesis
  proof (cases "worker_id (re_vertex_to_address data) = ?W")
    case False
    have "RemoveEdge s data = Inr (DONE, s \<lparr> edge_updates := eu, vertex_updates := vu \<rparr>)"
      using e1 e2 False by (simp add: RemoveEdge_def Let_def)
    then show ?thesis using b1 b2 False by simp
  next
    case True
    have "obtainable VertexAccessor ?db vu ?tx (gid (re_vertex_to_address data))"
      using ot True h2 by (auto simp: obtainable_def)
    then obtain vu' where
      e3: "GetUpdates_Emplace VertexAccessor ?db vu ?tx ?d3 = Inr (DONE, vu')"
      and b3: "\<forall>tx g. buffered vu' tx g = buffered vu tx g
                 @ (if tx = ?tx \<and> g = gid (re_vertex_to_address data) then [?d3] else [])"
      using GetUpdates_Emplace_ok [of VertexAccessor ?db vu ?tx ?d3]
      by (auto simp: record_id_factories)
    have "RemoveEdge s data = Inr (DONE, s \<lparr> edge_updates := eu, vertex_updates := vu' \<rparr>)"
      using e1 e2 e3 True by (simp add: RemoveEdge_def Let_def)
    then show ?thesis using b1 b2 b3 True by simp
  qed
qed

lemma RemoveEdge_fails:
  assumes "\<not> (obtainable EdgeAccessor (graph_db s) (edge_updates s) (re_tx_id data)
                 (re_edge_id data)
             \<and> obtainable VertexAccessor (graph_db s) (vertex_updates s) (re_tx_id data)
                 (re_vertex_from_id data)
             \<and> (worker_id (re_vertex_to_address data) = WorkerId (graph_db s)
                \<longrightarrow> obtainable VertexAccessor (graph_db s) (vertex_updates s) (re_tx_id data)
                      (gid (re_vertex_to_address data))))"
  shows "RemoveEdge s data = Inl NotFound"
proof -
  let ?tx = "re_tx_id data" and ?db = "graph_db s" and ?W = "WorkerId (graph_db s)"
  let ?d2 = "StateDelta_RemoveOutEdge ?tx (re_vertex_from_id data) (Address ?W (re_edge_id data))"
  show ?thesis
  proof (cases "obtainable EdgeAccessor ?db (edge_updates s) ?tx (re_edge_id data)")
    case False
    then show ?thesis
      by (simp add: RemoveEdge_def Let_def GetUpdates_Emplace_eq record_id_factories)
  next
    case oe: True
    show ?thesis
    proof (cases "obtainable VertexAccessor ?db (vertex_updates s) ?tx (re_vertex_from_id data)")
      case False
      then show ?thesis using oe
        by (simp add: RemoveEdge_def Let_def GetUpdates_Emplace_eq record_id_factories)
    next
      case ov: True
      have loc: "worker_id (re_vertex_to_address data) = ?W"
        and nt: "\<not> obtainable VertexAccessor ?db (vertex_updates s) ?tx
                    (gid (re_vertex_to_address data))"
        using assms oe ov by auto
      have ne: "gid (re_vertex_to_address data) \<noteq> re_vertex_from_id data"
        using nt ov by auto
      have "\<not> obtainable VertexAccessor ?db
                (access_assign (snd (GetUpdates (vertex_updates s) ?tx)) ?tx
                   (emplaced (updates_or_new (vertex_updates s) ?tx) (re_vertex_from_id data) ?d2))
                ?tx (gid (re_vertex_to_address data))"
        using nt ne by (simp add: obtainable_def has_record_after_Emplace)
      then show ?thesis using oe ov loc
        by (simp add: RemoveEdge_def Let_def GetUpdates_Emplace_eq record_id_factories)
    qed
  qed
qed

lemma buffered_emplace_if_absent:
  "buffered (access_assign (snd (GetUpdates m tx)) tx
       ((updates_or_new m tx) \<lparr> deltas := emplace_if_absent (deltas (updates_or_new m tx)) g (g, []) \<rparr>))
     tx' g' = buffered m tx' g'"
  by (auto simp: buffered_def access_find_after_Emplace emplace_if_absent_def updates_or_new_def
           split: option.splits)

lemma has_record_emplace_if_absent:
  "has_record (access_assign (snd (GetUpdates m tx)) tx
       ((updates_or_new m tx) \<lparr> deltas := emplace_if_absent (deltas (updates_or_new m tx)) g (g, []) \<rparr>))
     tx' g' = (has_record m tx' g' \<or> (tx' = tx \<and> g' = g))"
  by (auto simp: has_record_def access_find_after_Emplace emplace_if_absent_def updates_or_new_def
           split: option.splits)

lemma CreateEdge_eq:
  "CreateEdge s req =
     (let g = edge_generator (graph_db s);
          db' = edge_inserted (graph_db s) (db_accessor (updates_or_new (edge_updates s) (ce_tx_id req))) req;
          eu' = access_assign (snd (GetUpdates (edge_updates s) (ce_tx_id req))) (ce_tx_id req)
                  ((updates_or_new (edge_updates s) (ce_tx_id req))
                     \<lparr> deltas := emplace_if_absent
                          (deltas (updates_or_new (edge_updates s) (ce_tx_id req))) g (g, []) \<rparr>)
      in case GetUpdates_Emplace VertexAccessor db' (vertex_updates s) (ce_tx_id req)
                (StateDelta_AddOutEdge (ce_tx_id req) (ce_from req) (ce_to req)
                   (Address (WorkerId (graph_db s)) g) (ce_edge_type req)) of
           Inl f \<Rightarrow> Inl f
         | Inr (r, vu) \<Rightarrow>
             Inr ((r, g), \<lparr> graph_db = db', vertex_updates = vu, edge_updates = eu' \<rparr>))"
proof -
  obtain tu eu where g: "GetUpdates (edge_updates s) (ce_tx_id req) = (tu, eu)"
    by (cases "GetUpdates (edge_updates s) (ce_tx_id req)")
  have tu: "tu = updates_or_new (edge_updates s) (ce_tx_id req)" using g by (rule GetUpdates_eq)
  show ?thesis
    using g tu
    by (simp add: CreateEdge_def TransactionUpdates_CreateEdge_def InsertOnlyEdge_def Let_def
          LocalizedAddressIfPossible_def edge_inserted_def wal_Emplace_def)
qed

lemma obtainable_edge_inserted:
  "obtainable VertexAccessor (edge_inserted db t req) m tx g = obtainable VertexAccessor db m tx g"
  by (simp add: obtainable_def in_store_def edge_inserted_def)

lemma CreateEdge_ok:
  assumes "obtainable VertexAccessor (graph_db s) (vertex_updates s) (ce_tx_id req) (ce_from req)"
  shows "\<exists>s1. CreateEdge s req = Inr ((DONE, edge_generator (graph_db s)), s1)
           \<and> graph_db s1 = edge_inserted (graph_db s) (db_accessor (updates_or_new (edge_updates s) (ce_tx_id req))) req
           \<and> has_record (edge_updates s1) (ce_tx_id req) (edge_generator (graph_db s))
           \<and> (\<forall>tx g. buffered (edge_updates s1) tx g = buffered (edge_updates s) tx g)
           \<and> (\<forall>tx g. buffered (vertex_updates s1) tx g =
                 buffered (vertex_updates s) tx g
                   @ (if tx = ce_tx_id req \<and> g = ce_from req
                      then [StateDelta_AddOutEdge (ce_tx_id req) (ce_from req) (ce_to req)
                              (Address (WorkerId (graph_db s)) (edge_generator (graph_db s)))
                              (ce_edge_type req)]
                      else []))
           \<and> (\<forall>tx g. has_record (vertex_updates s1) tx g =
                 (has_record (vertex_updates s) tx g \<or> (tx = ce_tx_id req \<and> g = ce_from req)))"
proof -
  let ?d = "StateDelta_AddOutEdge (ce_tx_id req) (ce_from req) (ce_to req)
              (Address (WorkerId (graph_db s)) (edge_generator (graph_db s))) (ce_edge_type req)"
  have "obtainable VertexAccessor (edge_inserted (graph_db s) (db_accessor (updates_or_new (edge_updates s) (ce_tx_id req))) req) (vertex_updates s)
          (ce_tx_id req) (record_id VertexAccessor ?d)"
    using assms by (simp add: obtainable_edge_inserted record_id_factories)
  from GetUpdates_Emplace_ok [OF this]
  obtain vu where e: "GetUpdates_Emplace VertexAccessor (edge_inserted (graph_db s) (db_accessor (updates_or_new (edge_updates s) (ce_tx_id req))) req)
                        (vertex_updates s) (ce_tx_id req) ?d = Inr (DONE, vu)"
    and b: "\<forall>tx g. buffered vu tx g = buffered (vertex_updates s) tx g
                 @ (if tx = ce_tx_id req \<and> g = ce_from req then [?d] else [])"
    and h: "\<forall>tx g. has_record vu tx g =
                 (has_record (vertex_updates s) tx g \<or> (tx = ce_tx_id req \<and> g = ce_from req))"
    by (auto simp: record_id_factories)
  show ?thesis
    using e b h
    by (simp add: CreateEdge_eq Let_def buffered_emplace_if_absent has_record_emplace_if_absent)
qed

lemma CreateEdge_fails:
  assumes "\<not> obtainable VertexAccessor (graph_db s) (vertex_updates s) (ce_tx_id req) (ce_from req)"
  shows "CreateEdge s req = Inl NotFound"
  using assms
  by (simp add: CreateEdge_eq Let_def GetUpdates_Emplace_eq obtainable_edge_inserted
        record_id_factories)

lemma example_empty_facts:
  "WorkerId (graph_db example_empty) = 1"
  "edge_generator (graph_db example_empty) = 11"
  "vertex_generator (graph_db example_empty) = 4"
  "buffered (vertex_updates example_empty) tx g = []"
  "buffered (edge_updates example_empty) tx g = []"
  "obtainable VertexAccessor (graph_db example_empty) (vertex_updates example_empty) 5 1"
  "obtainable VertexAccessor (graph_db example_empty) (vertex_updates example_empty) 5 2"
  "obtainable EdgeAccessor (graph_db example_empty) (edge_updates example_empty) 5 10"
  "\<not> obtainable VertexAccessor (graph_db example_empty) (vertex_updates example_empty) 5 99"
  by (simp_all add: example_defs buffered_def access_find_def obtainable_def has_record_def
        in_store_def)

lemma CreateEdgeRpc_cases:
  "(obtainable VertexAccessor (graph_db s) (vertex_updates s) (ce_tx_id data) (ce_from data)
      \<and> (worker_id (ce_to data) = WorkerId (graph_db s)
         \<longrightarrow> obtainable VertexAccessor (graph_db s) (vertex_updates s) (ce_tx_id data)
               (gid (ce_to data)))
    \<longrightarrow> (\<exists>s'. CreateEdgeRpc s data = Inr ((DONE, edge_generator (graph_db s)), s')
           \<and> edges (graph_db s') (edge_generator (graph_db s))
               = Some \<lparr> payload = \<lparr> e_from = Address (WorkerId (graph_db s)) (ce_from data),
                                     e_to = ce_to data, e_type = ce_edge_type data,
                                     e_properties = Map.empty \<rparr>,
                        lock_holder = None, superseded = False, expired = False \<rparr>
           \<and> vertices (graph_db s') = vertices (graph_db s)
           \<and> wal (graph_db s')
               = wal (graph_db s)
                   @ [StateDelta_CreateEdge
                        (db_accessor (updates_or_new (edge_updates s) (ce_tx_id data)))
                        (edge_generator (graph_db s))
                        (Address (WorkerId (graph_db s)) (ce_from data)) (ce_to data)
                        (ce_edge_type data)]
           \<and> has_record (edge_updates s') (ce_tx_id data) (edge_generator (graph_db s))
           \<and> (\<forall>tx g. buffered (edge_updates s') tx g = buffered (edge_updates s) tx g)
           \<and> (\<forall>tx g. buffered (vertex_updates s') tx g =
                 buffered (vertex_updates s) tx g
                   @ (if tx = ce_tx_id data \<and> g = ce_from data
                      then [StateDelta_AddOutEdge (ce_tx_id data) (ce_from data) (ce_to data)
                              (Address (WorkerId (graph_db s)) (edge_generator (graph_db s)))
                              (ce_edge_type data)]
                      else [])
                   @ (if tx = ce_tx_id data
                         \<and> worker_id (ce_to data) = WorkerId (graph_db s)
                         \<and> g = gid (ce_to data)
                      then [StateDelta_AddInEdge (ce_tx_id data) (gid (ce_to data))
                              (Address (WorkerId (graph_db s)) (ce_from data))
                              (Address (WorkerId (graph_db s)) (edge_generator (graph_db s)))
                              (ce_edge_type data)]
                      else []))))
   \<and> (\<not> (obtainable VertexAccessor (graph_db s) (vertex_updates s) (ce_tx_id data)
             (ce_from data)
          \<and> (worker_id (ce_to data) = WorkerId (graph_db s)
             \<longrightarrow> obtainable VertexAccessor (graph_db s) (vertex_updates s) (ce_tx_id data)
                   (gid (ce_to data))))
    \<longrightarrow> CreateEdgeRpc s data = Inl NotFound)"
proof (cases "obtainable VertexAccessor (graph_db s) (vertex_updates s) (ce_tx_id data)
                (ce_from data)")
  case False
  then show ?thesis by (simp add: CreateEdgeRpc_def CreateEdge_fails)
next
  case of: True
  let ?tx = "ce_tx_id data" and ?W = "WorkerId (graph_db s)" and ?g = "edge_generator (graph_db s)"
  let ?din = "StateDelta_AddInEdge ?tx (gid (ce_to data)) (Address ?W (ce_from data))
                (Address ?W ?g) (ce_edge_type data)"
  obtain s1 where c: "CreateEdge s data = Inr ((DONE, ?g), s1)"
    and db1: "graph_db s1 = edge_inserted (graph_db s) (db_accessor (updates_or_new (edge_updates s) (ce_tx_id data))) data"
    and hr: "has_record (edge_updates s1) ?tx ?g"
    and be: "\<forall>tx g. buffered (edge_updates s1) tx g = buffered (edge_updates s) tx g"
    and bv: "\<forall>tx g. buffered (vertex_updates s1) tx g =
                 buffered (vertex_updates s) tx g
                   @ (if tx = ?tx \<and> g = ce_from data
                      then [StateDelta_AddOutEdge ?tx (ce_from data) (ce_to data)
                              (Address ?W ?g) (ce_edge_type data)]
                      else [])"
    and hv: "\<forall>tx g. has_record (vertex_updates s1) tx g =
                 (has_record (vertex_updates s) tx g \<or> (tx = ?tx \<and> g = ce_from data))"
    using CreateEdge_ok [OF of] by blast
  have w1: "WorkerId (graph_db s1) = ?W" using db1 by (simp add: edge_inserted_def)
  have ed: "edges (graph_db s1) ?g
               = Some \<lparr> payload = \<lparr> e_from = Address ?W (ce_from data),
                                     e_to = ce_to data, e_type = ce_edge_type data,
                                     e_properties = Map.empty \<rparr>,
                        lock_holder = None, superseded = False, expired = False \<rparr>"
    and vs: "vertices (graph_db s1) = vertices (graph_db s)"
    and ws: "wal (graph_db s1)
               = wal (graph_db s)
                   @ [StateDelta_CreateEdge
                        (db_accessor (updates_or_new (edge_updates s) ?tx)) ?g
                        (Address ?W (ce_from data)) (ce_to data) (ce_edge_type data)]"
    using db1 by (simp_all add: edge_inserted_def)
  show ?thesis
  proof (cases "worker_id (ce_to data) = ?W")
    case False
    have "CreateEdgeRpc s data = Inr ((DONE, ?g), s1)"
      using c False w1 by (simp add: CreateEdgeRpc_def)
    then show ?thesis using of False ed vs ws hr be bv by simp
  next
    case loc: True
    show ?thesis
    proof (cases "obtainable VertexAccessor (graph_db s) (vertex_updates s) ?tx (gid (ce_to data))")
      case ot: True
      have "obtainable VertexAccessor (graph_db s1) (vertex_updates s1) ?tx
              (record_id VertexAccessor ?din)"
        using ot hv db1
        by (auto simp: obtainable_def in_store_def edge_inserted_def record_id_factories)
      from GetUpdates_Emplace_ok [OF this]
      obtain vu where e: "GetUpdates_Emplace VertexAccessor (graph_db s1) (vertex_updates s1)
                            ?tx ?din = Inr (DONE, vu)"
        and b: "\<forall>tx g. buffered vu tx g = buffered (vertex_updates s1) tx g
                 @ (if tx = ?tx \<and> g = gid (ce_to data) then [?din] else [])"
        by (auto simp: record_id_factories)
      have "CreateEdgeRpc s data = Inr ((DONE, ?g), s1 \<lparr> vertex_updates := vu \<rparr>)"
        using c loc w1 e by (simp add: CreateEdgeRpc_def Let_def)
      then show ?thesis using of loc ot ed vs ws hr be bv b by simp
    next
      case nt: False
      have ne: "gid (ce_to data) \<noteq> ce_from data" using nt of by auto
      have "\<not> obtainable VertexAccessor (graph_db s1) (vertex_updates s1) ?tx
                (record_id VertexAccessor ?din)"
        using nt ne hv db1
        by (auto simp: obtainable_def in_store_def edge_inserted_def record_id_factories)
      then have "CreateEdgeRpc s data = Inl NotFound"
        using c loc w1 by (simp add: CreateEdgeRpc_def Let_def GetUpdates_Emplace_eq)
      then show ?thesis using loc nt by simp
    qed
  qed
qed

text \<open>
  Claim C4.  \<^verbatim>\<open>CreateEdgeRpc\<close> on worker \<open>W\<close> returns exactly when an accessor can be
  obtained for the from-vertex and, if the to-vertex is on \<open>W\<close>, for the to-vertex.
  Then the result is \<open>DONE\<close> with the gid of the new edge; the edge record with the
  given end points and type is in the store, and the insertion has written its
  \<^verbatim>\<open>CREATE_EDGE\<close> delta to the WAL; the edge updates of the transaction have an
  entry for the edge, and no delta queue of the edge updates has changed; and the vertex
  updates of the transaction have grown by an \<^verbatim>\<open>ADD_OUT_EDGE\<close> delta at the end of the
  from-vertex's queue, followed by an \<^verbatim>\<open>ADD_IN_EDGE\<close> delta at the end of the
  to-vertex's queue if and only if the worker id of \<open>to\<close> is that of \<open>W\<close>.
\<close>

theorem CreateEdgeRpc_buffers:
  "(obtainable VertexAccessor (graph_db s) (vertex_updates s) (ce_tx_id data) (ce_from data)
      \<and> (worker_id (ce_to data) = WorkerId (graph_db s)
         \<longrightarrow> obtainable VertexAccessor (graph_db s) (vertex_updates s) (ce_tx_id data)
               (gid (ce_to data)))
    \<longrightarrow> (\<exists>s'. CreateEdgeRpc s data = Inr ((DONE, edge_generator (graph_db s)), s')
           \<and> edges (graph_db s') (edge_generator (graph_db s))
               = Some \<lparr> payload = \<lparr> e_from = Address (WorkerId (graph_db s)) (ce_from data),
                                     e_to = ce_to data, e_type = ce_edge_type data,
                                     e_properties = Map.empty \<rparr>,
                        lock_holder = None, superseded = False, expired = False \<rparr>
           \<and> vertices (graph_db s') = vertices (graph_db s)
           \<and> wal (graph_db s')
               = wal (graph_db s)
                   @ [StateDelta_CreateEdge
                        (db_accessor (updates_or_new (edge_updates s) (ce_tx_id data)))
                        (edge_generator (graph_db s))
                        (Address (WorkerId (graph_db s)) (ce_from data)) (ce_to data)
                        (ce_edge_type data)]
           \<and> has_record (edge_updates s') (ce_tx_id data) (edge_generator (graph_db s))
           \<and> (\<forall>tx g. buffered (edge_updates s') tx g = buffered (edge_updates s) tx g)
           \<and> (\<forall>tx g. buffered (vertex_updates s') tx g =
                 buffered (vertex_updates s) tx g
                   @ (if tx = ce_tx_id data \<and> g = ce_from data
                      then [StateDelta_AddOutEdge (ce_tx_id data) (ce_from data) (ce_to data)
                              (Address (WorkerId (graph_db s)) (edge_generator (graph_db s)))
                              (ce_edge_type data)]
                      else [])
                   @ (if tx = ce_tx_id data
                         \<and> worker_id (ce_to data) = WorkerId (graph_db s)
                         \<and> g = gid (ce_to data)
                      then [StateDelta_AddInEdge (ce_tx_id data) (gid (ce_to data))
                              (Address (WorkerId (graph_db s)) (ce_from data))
                              (Address (WorkerId (graph_db s)) (edge_generator (graph_db s)))
                              (ce_edge_type data)]
                      else []))))
   \<and> (\<not> (obtainable VertexAccessor (graph_db s) (vertex_updates s) (ce_tx_id data)
             (ce_from data)
          \<and> (worker_id (ce_to data) = WorkerId (graph_db s)
             \<longrightarrow> obtainable VertexAccessor (graph_db s) (vertex_updates s) (ce_tx_id data)
                   (gid (ce_to data))))
    \<longrightarrow> CreateEdgeRpc s data = Inl NotFound)"
  by (rule CreateEdgeRpc_cases)

theorem CreateEdgeRpc_buffers_witness:
  "obtainable VertexAccessor (graph_db example_empty) (vertex_updates example_empty) 5 1
   \<and> obtainable VertexAccessor (graph_db example_empty) (vertex_updates example_empty) 5 2
   \<and> (\<exists>s'. CreateEdgeRpc example_empty
               \<lparr> ce_tx_id = 5, ce_from = 1, ce_to = Address 1 2, ce_edge_type = 0 \<rparr>
             = Inr ((DONE, 11), s')
          \<and> has_record (edge_updates s') 5 11
          \<and> buffered (edge_updates s') 5 11 = []
          \<and> buffered (vertex_updates s') 5 1
               = [StateDelta_AddOutEdge 5 1 (Address 1 2) (Address 1 11) 0]
          \<and> buffered (vertex_updates s') 5 2
               = [StateDelta_AddInEdge 5 2 (Address 1 1) (Address 1 11) 0])
   \<and> (\<exists>s'. CreateEdgeRpc example_empty
               \<lparr> ce_tx_id = 5, ce_from = 1, ce_to = Address 2 2, ce_edge_type = 0 \<rparr>
             = Inr ((DONE, 11), s')
          \<and> buffered (vertex_updates s') 5 1
               = [StateDelta_AddOutEdge 5 1 (Address 2 2) (Address 1 11) 0]
          \<and> buffered (vertex_updates s') 5 2 = [])
   \<and> CreateEdgeRpc example_empty
        \<lparr> ce_tx_id = 5, ce_from = 99, ce_to = Address 1 2, ce_edge_type = 0 \<rparr>
      = Inl NotFound"
proof -
  note t1 = CreateEdgeRpc_buffers
              [where s = example_empty
                 and data = "\<lparr> ce_tx_id = 5, ce_from = 1, ce_to = Address 1 2, ce_edge_type = 0 \<rparr>"]
  note t2 = CreateEdgeRpc_buffers
              [where s = example_empty
                 and data = "\<lparr> ce_tx_id = 5, ce_from = 1, ce_to = Address 2 2, ce_edge_type = 0 \<rparr>"]
  note t3 = CreateEdgeRpc_buffers
              [where s = example_empty
                 and data = "\<lparr> ce_tx_id = 5, ce_from = 99, ce_to = Address 1 2, ce_edge_type = 0 \<rparr>"]
  have a: "\<exists>s'. CreateEdgeRpc example_empty
               \<lparr> ce_tx_id = 5, ce_from = 1, ce_to = Address 1 2, ce_edge_type = 0 \<rparr>
             = Inr ((DONE, 11), s')
          \<and> has_record (edge_updates s') 5 11
          \<and> buffered (edge_updates s') 5 11 = []
          \<and> buffered (vertex_updates s') 5 1
               = [StateDelta_AddOutEdge 5 1 (Address 1 2) (Address 1 11) 0]
          \<and> buffered (vertex_updates s') 5 2
               = [StateDelta_AddInEdge 5 2 (Address 1 1) (Address 1 11) 0]"
  proof -
    obtain s' where r: "CreateEdgeRpc example_empty
               \<lparr> ce_tx_id = 5, ce_from = 1, ce_to = Address 1 2, ce_edge_type = 0 \<rparr>
             = Inr ((DONE, 11), s')"
      and hr: "has_record (edge_updates s') 5 11"
      and be: "\<forall>tx g. buffered (edge_updates s') tx g = []"
      and bv: "\<forall>tx g. buffered (vertex_updates s') tx g =
                 (if tx = 5 \<and> g = 1
                  then [StateDelta_AddOutEdge 5 1 (Address 1 2) (Address 1 11) 0] else [])
                 @ (if tx = 5 \<and> g = 2
                    then [StateDelta_AddInEdge 5 2 (Address 1 1) (Address 1 11) 0] else [])"
      using t1 by (auto simp: example_empty_facts)
    have "buffered (vertex_updates s') 5 1
               = [StateDelta_AddOutEdge 5 1 (Address 1 2) (Address 1 11) 0]"
      and "buffered (vertex_updates s') 5 2
               = [StateDelta_AddInEdge 5 2 (Address 1 1) (Address 1 11) 0]"
      using bv by simp_all
    then show ?thesis using r hr be by simp
  qed
  have b: "\<exists>s'. CreateEdgeRpc example_empty
               \<lparr> ce_tx_id = 5, ce_from = 1, ce_to = Address 2 2, ce_edge_type = 0 \<rparr>
             = Inr ((DONE, 11), s')
          \<and> buffered (vertex_updates s') 5 1
               = [StateDelta_AddOutEdge 5 1 (Address 2 2) (Address 1 11) 0]
          \<and> buffered (vertex_updates s') 5 2 = []"
  proof -
    obtain s' where r: "CreateEdgeRpc example_empty
               \<lparr> ce_tx_id = 5, ce_from = 1, ce_to = Address 2 2, ce_edge_type = 0 \<rparr>
             = Inr ((DONE, 11), s')"
      and bv: "\<forall>tx g. buffered (vertex_updates s') tx g =
                 (if tx = 5 \<and> g = 1
                  then [StateDelta_AddOutEdge 5 1 (Address 2 2) (Address 1 11) 0] else [])"
      using t2 by (auto simp: example_empty_facts)
    have "buffered (vertex_updates s') 5 1
               = [StateDelta_AddOutEdge 5 1 (Address 2 2) (Address 1 11) 0]"
      and "buffered (vertex_updates s') 5 2 = []"
      using bv by simp_all
    then show ?thesis using r by simp
  qed
  have c: "CreateEdgeRpc example_empty
        \<lparr> ce_tx_id = 5, ce_from = 99, ce_to = Address 1 2, ce_edge_type = 0 \<rparr>
      = Inl NotFound"
    using t3 by (simp add: example_empty_facts)
  show ?thesis using a b c by (simp add: example_empty_facts)
qed

text \<open>
  Claim C5.  \<^verbatim>\<open>UpdatesRpcServer::RemoveEdge\<close> returns exactly when an accessor can be
  obtained for the edge, for the from-vertex and, if the to-vertex is on this worker, for
  the to-vertex.  Then the result is \<open>DONE\<close>, the database is unchanged, the queue of
  the edge in the edge updates has grown by a \<^verbatim>\<open>REMOVE_EDGE\<close> delta, the queue of the
  from-vertex in the vertex updates by a \<^verbatim>\<open>REMOVE_OUT_EDGE\<close> delta, and the queue of the
  to-vertex by a \<^verbatim>\<open>REMOVE_IN_EDGE\<close> delta after that if and only if the worker id of the
  to-vertex is this worker's; nothing else is buffered.
\<close>

theorem RemoveEdge_buffers_in_order:
  "(obtainable EdgeAccessor (graph_db s) (edge_updates s) (re_tx_id data) (re_edge_id data)
      \<and> obtainable VertexAccessor (graph_db s) (vertex_updates s) (re_tx_id data)
          (re_vertex_from_id data)
      \<and> (worker_id (re_vertex_to_address data) = WorkerId (graph_db s)
         \<longrightarrow> obtainable VertexAccessor (graph_db s) (vertex_updates s) (re_tx_id data)
               (gid (re_vertex_to_address data)))
    \<longrightarrow> (\<exists>s'. RemoveEdge s data = Inr (DONE, s') \<and> graph_db s' = graph_db s
           \<and> (\<forall>tx g. buffered (edge_updates s') tx g =
                 buffered (edge_updates s) tx g
                   @ (if tx = re_tx_id data \<and> g = re_edge_id data
                      then [StateDelta_RemoveEdge (re_tx_id data) (re_edge_id data)] else []))
           \<and> (\<forall>tx g. buffered (vertex_updates s') tx g =
                 buffered (vertex_updates s) tx g
                   @ (if tx = re_tx_id data \<and> g = re_vertex_from_id data
                      then [StateDelta_RemoveOutEdge (re_tx_id data) (re_vertex_from_id data)
                              (Address (WorkerId (graph_db s)) (re_edge_id data))]
                      else [])
                   @ (if tx = re_tx_id data
                         \<and> worker_id (re_vertex_to_address data) = WorkerId (graph_db s)
                         \<and> g = gid (re_vertex_to_address data)
                      then [StateDelta_RemoveInEdge (re_tx_id data)
                              (gid (re_vertex_to_address data))
                              (Address (WorkerId (graph_db s)) (re_edge_id data))]
                      else []))))
   \<and> (\<not> (obtainable EdgeAccessor (graph_db s) (edge_updates s) (re_tx_id data)
             (re_edge_id data)
          \<and> obtainable VertexAccessor (graph_db s) (vertex_updates s) (re_tx_id data)
              (re_vertex_from_id data)
          \<and> (worker_id (re_vertex_to_address data) = WorkerId (graph_db s)
             \<longrightarrow> obtainable VertexAccessor (graph_db s) (vertex_updates s) (re_tx_id data)
                   (gid (re_vertex_to_address data))))
    \<longrightarrow> RemoveEdge s data = Inl NotFound)"
  using RemoveEdge_ok [of s data] RemoveEdge_fails [of s data] by blast

theorem RemoveEdge_buffers_in_order_witness:
  "obtainable EdgeAccessor (graph_db example_empty) (edge_updates example_empty) 5 10
   \<and> obtainable VertexAccessor (graph_db example_empty) (vertex_updates example_empty) 5 2
   \<and> obtainable VertexAccessor (graph_db example_empty) (vertex_updates example_empty) 5 1
   \<and> (\<exists>s'. RemoveEdge example_empty
               \<lparr> re_tx_id = 5, re_edge_id = 10, re_vertex_from_id = 2,
                 re_vertex_to_address = Address 1 1 \<rparr>
             = Inr (DONE, s')
          \<and> buffered (edge_updates s') 5 10 = [StateDelta_RemoveEdge 5 10]
          \<and> buffered (vertex_updates s') 5 2 = [StateDelta_RemoveOutEdge 5 2 (Address 1 10)]
          \<and> buffered (vertex_updates s') 5 1 = [StateDelta_RemoveInEdge 5 1 (Address 1 10)])
   \<and> (\<exists>s'. RemoveEdge example_empty
               \<lparr> re_tx_id = 5, re_edge_id = 10, re_vertex_from_id = 2,
                 re_vertex_to_address = Address 2 1 \<rparr>
             = Inr (DONE, s')
          \<and> buffered (edge_updates s') 5 10 = [StateDelta_RemoveEdge 5 10]
          \<and> buffered (vertex_updates s') 5 2 = [StateDelta_RemoveOutEdge 5 2 (Address 1 10)]
          \<and> buffered (vertex_updates s') 5 1 = [])
   \<and> RemoveEdge example_empty
        \<lparr> re_tx_id = 5, re_edge_id = 10, re_vertex_from_id = 99,
          re_vertex_to_address = Address 1 1 \<rparr>
      = Inl NotFound"
proof -
  note t1 = RemoveEdge_buffers_in_order
              [where s = example_empty
                 and data = "\<lparr> re_tx_id = 5, re_edge_id = 10, re_vertex_from_id = 2,
                               re_vertex_to_address = Address 1 1 \<rparr>"]
  note t2 = RemoveEdge_buffers_in_order
              [where s = example_empty
                 and data = "\<lparr> re_tx_id = 5, re_edge_id = 10, re_vertex_from_id = 2,
                               re_vertex_to_address = Address 2 1 \<rparr>"]
  note t3 = RemoveEdge_buffers_in_order
              [where s = example_empty
                 and data = "\<lparr> re_tx_id = 5, re_edge_id = 10, re_vertex_from_id = 99,
                               re_vertex_to_address = Address 1 1 \<rparr>"]
  have a: "\<exists>s'. RemoveEdge example_empty
               \<lparr> re_tx_id = 5, re_edge_id = 10, re_vertex_from_id = 2,
                 re_vertex_to_address = Address 1 1 \<rparr>
             = Inr (DONE, s')
          \<and> buffered (edge_updates s') 5 10 = [StateDelta_RemoveEdge 5 10]
          \<and> buffered (vertex_updates s') 5 2 = [StateDelta_RemoveOutEdge 5 2 (Address 1 10)]
          \<and> buffered (vertex_updates s') 5 1 = [StateDelta_RemoveInEdge 5 1 (Address 1 10)]"
  proof -
    obtain s' where r: "RemoveEdge example_empty
               \<lparr> re_tx_id = 5, re_edge_id = 10, re_vertex_from_id = 2,
                 re_vertex_to_address = Address 1 1 \<rparr>
             = Inr (DONE, s')"
      and be: "\<forall>tx g. buffered (edge_updates s') tx g =
                 (if tx = 5 \<and> g = 10 then [StateDelta_RemoveEdge 5 10] else [])"
      and bv: "\<forall>tx g. buffered (vertex_updates s') tx g =
                 (if tx = 5 \<and> g = 2 then [StateDelta_RemoveOutEdge 5 2 (Address 1 10)] else [])
                 @ (if tx = 5 \<and> g = 1 then [StateDelta_RemoveInEdge 5 1 (Address 1 10)] else [])"
      using t1 by (auto simp: example_empty_facts)
    have "buffered (edge_updates s') 5 10 = [StateDelta_RemoveEdge 5 10]"
      and "buffered (vertex_updates s') 5 2 = [StateDelta_RemoveOutEdge 5 2 (Address 1 10)]"
      and "buffered (vertex_updates s') 5 1 = [StateDelta_RemoveInEdge 5 1 (Address 1 10)]"
      using be bv by simp_all
    then show ?thesis using r by simp
  qed
  have b: "\<exists>s'. RemoveEdge example_empty
               \<lparr> re_tx_id = 5, re_edge_id = 10, re_vertex_from_id = 2,
                 re_vertex_to_address = Address 2 1 \<rparr>
             = Inr (DONE, s')
          \<and> buffered (edge_updates s') 5 10 = [StateDelta_RemoveEdge 5 10]
          \<and> buffered (vertex_updates s') 5 2 = [StateDelta_RemoveOutEdge 5 2 (Address 1 10)]
          \<and> buffered (vertex_updates s') 5 1 = []"
  proof -
    obtain s' where r: "RemoveEdge example_empty
               \<lparr> re_tx_id = 5, re_edge_id = 10, re_vertex_from_id = 2,
                 re_vertex_to_address = Address 2 1 \<rparr>
             = Inr (DONE, s')"
      and be: "\<forall>tx g. buffered (edge_updates s') tx g =
                 (if tx = 5 \<and> g = 10 then [StateDelta_RemoveEdge 5 10] else [])"
      and bv: "\<forall>tx g. buffered (vertex_updates s') tx g =
                 (if tx = 5 \<and> g = 2 then [StateDelta_RemoveOutEdge 5 2 (Address 1 10)] else [])"
      using t2 by (auto simp: example_empty_facts)
    have "buffered (edge_updates s') 5 10 = [StateDelta_RemoveEdge 5 10]"
      and "buffered (vertex_updates s') 5 2 = [StateDelta_RemoveOutEdge 5 2 (Address 1 10)]"
      and "buffered (vertex_updates s') 5 1 = []"
      using be bv by simp_all
    then show ?thesis using r by simp
  qed
  have c: "RemoveEdge example_empty
        \<lparr> re_tx_id = 5, re_edge_id = 10, re_vertex_from_id = 99,
          re_vertex_to_address = Address 1 1 \<rparr>
      = Inl NotFound"
    using t3 by (simp add: example_empty_facts)
  show ?thesis using a b c by (simp add: example_empty_facts)
qed

subsection \<open>Creating a vertex\<close>

lemma modify_vertex_writable:
  assumes "vertices db g = Some r" and "writable t r"
  shows "modify_vertex db t g f
           = Inr (db \<lparr> vertices := (vertices db)
                         (g \<mapsto> r \<lparr> lock_holder := Some t, payload := f (payload r) \<rparr>) \<rparr>)"
  using assms by (auto simp: modify_vertex_def lock_for_update_def writable_def)

lemma add_labels_writable:
  assumes "vertices db g = Some r" and "writable t r"
  shows "\<exists>r'. add_labels db t g ls
                = Inr (db \<lparr> vertices := (vertices db)(g \<mapsto> r'),
                            wal := wal db @ map (StateDelta_AddLabel t g) ls \<rparr>)
           \<and> writable t r'
           \<and> payload r' = (payload r) \<lparr> v_labels := v_labels (payload r) \<union> set ls \<rparr>"
  using assms
proof (induction ls arbitrary: db r)
  case Nil
  have e: "db \<lparr> vertices := (vertices db)(g \<mapsto> r), wal := wal db @ map (StateDelta_AddLabel t g) [] \<rparr>
             = db"
    using Nil.prems(1) by (simp add: fun_upd_idem)
  show ?case
  proof (intro exI [of _ r] conjI)
    show "add_labels db t g []
            = Inr (db \<lparr> vertices := (vertices db)(g \<mapsto> r),
                        wal := wal db @ map (StateDelta_AddLabel t g) [] \<rparr>)"
      unfolding e by simp
    show "writable t r" by (rule Nil.prems(2))
    show "payload r = (payload r) \<lparr> v_labels := v_labels (payload r) \<union> set [] \<rparr>"
      by simp
  qed
next
  case (Cons l ls)
  let ?r1 = "r \<lparr> lock_holder := Some t,
                 payload := (payload r) \<lparr> v_labels := insert l (v_labels (payload r)) \<rparr> \<rparr>"
  let ?db1 = "db \<lparr> vertices := (vertices db)(g \<mapsto> ?r1),
                   wal := wal db @ [StateDelta_AddLabel t g l] \<rparr>"
  have s1: "add_label db t g l = Inr ?db1"
    using modify_vertex_writable [OF Cons.prems]
    by (simp add: add_label_def emit_def wal_Emplace_def)
  have v1: "vertices ?db1 g = Some ?r1" by simp
  have w1: "writable t ?r1" using Cons.prems(2) by (simp add: writable_def)
  obtain r' where a: "add_labels ?db1 t g ls
                        = Inr (?db1 \<lparr> vertices := (vertices ?db1)(g \<mapsto> r'),
                                     wal := wal ?db1 @ map (StateDelta_AddLabel t g) ls \<rparr>)"
    and w: "writable t r'"
    and p: "payload r' = (payload ?r1) \<lparr> v_labels := v_labels (payload ?r1) \<union> set ls \<rparr>"
    using Cons.IH [OF v1 w1] by blast
  have "add_labels db t g (l # ls)
          = Inr (db \<lparr> vertices := (vertices db)(g \<mapsto> r'),
                      wal := wal db @ map (StateDelta_AddLabel t g) (l # ls) \<rparr>)"
    using s1 a by simp
  moreover have "payload r' = (payload r) \<lparr> v_labels := v_labels (payload r) \<union> set (l # ls) \<rparr>"
    using p by simp
  ultimately show ?case using w by blast
qed

lemma set_properties_writable:
  assumes "vertices db g = Some r" and "writable t r"
  shows "\<exists>r'. set_properties db t g kvs
                = Inr (db \<lparr> vertices := (vertices db)(g \<mapsto> r'),
                            wal := wal db @ map (\<lambda>kv. StateDelta_PropsSetVertex t g (fst kv)
                                                        (snd kv)) kvs \<rparr>)
           \<and> writable t r'
           \<and> payload r' = (payload r) \<lparr> v_properties :=
                              v_properties (payload r) ++ map_of (rev kvs) \<rparr>"
  using assms
proof (induction kvs arbitrary: db r)
  case Nil
  have e: "db \<lparr> vertices := (vertices db)(g \<mapsto> r),
                wal := wal db @ map (\<lambda>kv. StateDelta_PropsSetVertex t g (fst kv) (snd kv)) [] \<rparr>
             = db"
    using Nil.prems(1) by (simp add: fun_upd_idem)
  show ?case
  proof (intro exI [of _ r] conjI)
    show "set_properties db t g []
            = Inr (db \<lparr> vertices := (vertices db)(g \<mapsto> r),
                        wal := wal db @ map (\<lambda>kv. StateDelta_PropsSetVertex t g (fst kv)
                                                    (snd kv)) [] \<rparr>)"
      unfolding e by simp
    show "writable t r" by (rule Nil.prems(2))
    show "payload r = (payload r) \<lparr> v_properties :=
                          v_properties (payload r) ++ map_of (rev []) \<rparr>"
      by simp
  qed
next
  case (Cons kv kvs)
  let ?r1 = "r \<lparr> lock_holder := Some t,
                 payload := (payload r) \<lparr> v_properties :=
                              (v_properties (payload r))(fst kv \<mapsto> snd kv) \<rparr> \<rparr>"
  let ?db1 = "db \<lparr> vertices := (vertices db)(g \<mapsto> ?r1),
                   wal := wal db @ [StateDelta_PropsSetVertex t g (fst kv) (snd kv)] \<rparr>"
  have s1: "PropsSet_vertex db t g (fst kv) (snd kv) = Inr ?db1"
    using modify_vertex_writable [OF Cons.prems]
    by (simp add: PropsSet_vertex_def emit_def wal_Emplace_def)
  have v1: "vertices ?db1 g = Some ?r1" by simp
  have w1: "writable t ?r1" using Cons.prems(2) by (simp add: writable_def)
  obtain r' where a: "set_properties ?db1 t g kvs
                        = Inr (?db1 \<lparr> vertices := (vertices ?db1)(g \<mapsto> r'),
                                     wal := wal ?db1
                                       @ map (\<lambda>kv. StateDelta_PropsSetVertex t g (fst kv)
                                                      (snd kv)) kvs \<rparr>)"
    and w: "writable t r'"
    and p: "payload r' = (payload ?r1) \<lparr> v_properties :=
                            v_properties (payload ?r1) ++ map_of (rev kvs) \<rparr>"
    using Cons.IH [OF v1 w1] by blast
  have "set_properties db t g (kv # kvs)
          = Inr (db \<lparr> vertices := (vertices db)(g \<mapsto> r'),
                      wal := wal db @ map (\<lambda>kv. StateDelta_PropsSetVertex t g (fst kv)
                                                  (snd kv)) (kv # kvs) \<rparr>)"
    using s1 a by simp
  moreover have "(v_properties (payload r))(fst kv \<mapsto> snd kv) ++ map_of (rev kvs)
                   = v_properties (payload r) ++ map_of (rev (kv # kvs))"
    by (cases kv) (simp add: map_add_def fun_eq_iff split: option.splits)
  then have "payload r' = (payload r) \<lparr> v_properties :=
                             v_properties (payload r) ++ map_of (rev (kv # kvs)) \<rparr>"
    using p by simp
  ultimately show ?case using w by blast
qed

lemma map_of_rev_distinct:
  "distinct (map fst kvs) \<Longrightarrow> map_of (rev kvs) = map_of kvs"
  by (rule map_of_inject_set [THEN iffD2]) (simp_all add: rev_map [symmetric])

lemma TransactionUpdates_CreateVertex_ok:
  "\<exists>r. TransactionUpdates_CreateVertex db tu labels properties
         = Inr (vertex_generator db,
                db \<lparr> vertices := (vertices db)(vertex_generator db \<mapsto> r),
                     vertex_generator := vertex_generator db + 1,
                     wal := wal db
                       @ StateDelta_CreateVertex (db_accessor tu) (vertex_generator db)
                       # map (StateDelta_AddLabel (db_accessor tu) (vertex_generator db)) labels
                       @ map (\<lambda>kv. StateDelta_PropsSetVertex (db_accessor tu)
                                      (vertex_generator db) (fst kv) (snd kv)) properties \<rparr>,
                tu \<lparr> deltas := emplace_if_absent (deltas tu) (vertex_generator db)
                                  (vertex_generator db, []) \<rparr>)
       \<and> payload r = \<lparr> v_labels = set labels, v_properties = map_of (rev properties),
                         v_out = [], v_in = [] \<rparr>"
proof -
  let ?g = "vertex_generator db" and ?t = "db_accessor tu"
  let ?r0 = "\<lparr> payload = \<lparr> v_labels = {}, v_properties = Map.empty, v_out = [], v_in = [] \<rparr>,
               lock_holder = None, superseded = False, expired = False \<rparr>"
  let ?db1 = "db \<lparr> vertices := (vertices db)(?g \<mapsto> ?r0), vertex_generator := ?g + 1,
                   wal := wal db @ [StateDelta_CreateVertex ?t ?g] \<rparr>"
  let ?ls = "map (StateDelta_AddLabel ?t ?g) labels"
  let ?ps = "map (\<lambda>kv. StateDelta_PropsSetVertex ?t ?g (fst kv) (snd kv)) properties"
  have i: "InsertVertex db ?t = (?g, ?db1)"
    by (simp add: InsertVertex_def Let_def wal_Emplace_def)
  have v0: "vertices ?db1 ?g = Some ?r0" by simp
  have w0: "writable ?t ?r0" by (simp add: writable_def)
  obtain r1 where a: "add_labels ?db1 ?t ?g labels
                        = Inr (?db1 \<lparr> vertices := (vertices ?db1)(?g \<mapsto> r1),
                                     wal := wal ?db1 @ ?ls \<rparr>)"
    and w1: "writable ?t r1"
    and p1: "payload r1 = (payload ?r0) \<lparr> v_labels := v_labels (payload ?r0) \<union> set labels \<rparr>"
    using add_labels_writable [OF v0 w0] by blast
  let ?db2 = "?db1 \<lparr> vertices := (vertices ?db1)(?g \<mapsto> r1), wal := wal ?db1 @ ?ls \<rparr>"
  have v1: "vertices ?db2 ?g = Some r1" by simp
  obtain r2 where b: "set_properties ?db2 ?t ?g properties
                        = Inr (?db2 \<lparr> vertices := (vertices ?db2)(?g \<mapsto> r2),
                                     wal := wal ?db2 @ ?ps \<rparr>)"
    and p2: "payload r2 = (payload r1) \<lparr> v_properties :=
                             v_properties (payload r1) ++ map_of (rev properties) \<rparr>"
    using set_properties_writable [OF v1 w1] by blast
  have db3: "?db2 \<lparr> vertices := (vertices ?db2)(?g \<mapsto> r2), wal := wal ?db2 @ ?ps \<rparr>
               = db \<lparr> vertices := (vertices db)(?g \<mapsto> r2), vertex_generator := ?g + 1,
                      wal := wal db @ StateDelta_CreateVertex ?t ?g # ?ls @ ?ps \<rparr>"
    by simp
  have "TransactionUpdates_CreateVertex db tu labels properties
          = Inr (?g, db \<lparr> vertices := (vertices db)(?g \<mapsto> r2), vertex_generator := ?g + 1,
                          wal := wal db @ StateDelta_CreateVertex ?t ?g # ?ls @ ?ps \<rparr>,
                 tu \<lparr> deltas := emplace_if_absent (deltas tu) ?g (?g, []) \<rparr>)"
    unfolding TransactionUpdates_CreateVertex_def i using a b db3 by simp
  moreover have "payload r2 = \<lparr> v_labels = set labels, v_properties = map_of (rev properties),
                                 v_out = [], v_in = [] \<rparr>"
    using p1 p2 by simp
  ultimately show ?thesis by blast
qed

lemma CreateVertexRpc_ok:
  "\<exists>s' r. CreateVertexRpc s req = Inr ((DONE, vertex_generator (graph_db s)), s')
           \<and> vertices (graph_db s') (vertex_generator (graph_db s)) = Some r
           \<and> payload r = \<lparr> v_labels = set (cv_labels req),
                            v_properties = map_of (rev (cv_properties req)),
                            v_out = [], v_in = [] \<rparr>
           \<and> (\<forall>g. g \<noteq> vertex_generator (graph_db s)
                  \<longrightarrow> vertices (graph_db s') g = vertices (graph_db s) g)
           \<and> edges (graph_db s') = edges (graph_db s)
           \<and> wal (graph_db s')
               = wal (graph_db s)
                   @ StateDelta_CreateVertex
                       (db_accessor (updates_or_new (vertex_updates s) (cv_tx_id req)))
                       (vertex_generator (graph_db s))
                   # map (StateDelta_AddLabel
                            (db_accessor (updates_or_new (vertex_updates s) (cv_tx_id req)))
                            (vertex_generator (graph_db s))) (cv_labels req)
                   @ map (\<lambda>kv. StateDelta_PropsSetVertex
                                  (db_accessor (updates_or_new (vertex_updates s) (cv_tx_id req)))
                                  (vertex_generator (graph_db s)) (fst kv) (snd kv))
                       (cv_properties req)
           \<and> has_record (vertex_updates s') (cv_tx_id req) (vertex_generator (graph_db s))
           \<and> (\<forall>tx g. buffered (vertex_updates s') tx g = buffered (vertex_updates s) tx g)
           \<and> edge_updates s' = edge_updates s"
proof -
  let ?tx = "cv_tx_id req" and ?g = "vertex_generator (graph_db s)"
  obtain tu vu where g: "GetUpdates (vertex_updates s) ?tx = (tu, vu)"
    by (cases "GetUpdates (vertex_updates s) ?tx")
  have tu: "tu = updates_or_new (vertex_updates s) ?tx" using g by (rule GetUpdates_eq)
  have vu: "vu = snd (GetUpdates (vertex_updates s) ?tx)" using g by simp
  let ?w = "wal (graph_db s)
              @ StateDelta_CreateVertex (db_accessor tu) ?g
              # map (StateDelta_AddLabel (db_accessor tu) ?g) (cv_labels req)
              @ map (\<lambda>kv. StateDelta_PropsSetVertex (db_accessor tu) ?g (fst kv) (snd kv))
                  (cv_properties req)"
  obtain r where c: "TransactionUpdates_CreateVertex (graph_db s) tu (cv_labels req)
                       (cv_properties req)
         = Inr (?g,
                (graph_db s) \<lparr> vertices := (vertices (graph_db s))(?g \<mapsto> r),
                     vertex_generator := ?g + 1, wal := ?w \<rparr>,
                tu \<lparr> deltas := emplace_if_absent (deltas tu) ?g (?g, []) \<rparr>)"
    and p: "payload r = \<lparr> v_labels = set (cv_labels req),
                          v_properties = map_of (rev (cv_properties req)),
                          v_out = [], v_in = [] \<rparr>"
    using TransactionUpdates_CreateVertex_ok by blast
  let ?s' = "s \<lparr> graph_db := (graph_db s) \<lparr> vertices := (vertices (graph_db s))(?g \<mapsto> r),
                                          vertex_generator := ?g + 1, wal := ?w \<rparr>,
                 vertex_updates := access_assign vu ?tx
                    (tu \<lparr> deltas := emplace_if_absent (deltas tu) ?g (?g, []) \<rparr>) \<rparr>"
  have r: "CreateVertexRpc s req = Inr ((DONE, ?g), ?s')"
    using g c by (simp add: CreateVertexRpc_def)
  have h: "has_record (vertex_updates ?s') ?tx ?g"
    using has_record_emplace_if_absent [of "vertex_updates s" ?tx ?g ?tx ?g] tu vu by simp
  have b: "\<forall>tx g. buffered (vertex_updates ?s') tx g = buffered (vertex_updates s) tx g"
    using buffered_emplace_if_absent [of "vertex_updates s" ?tx ?g] tu vu by simp
  show ?thesis
    using r p h b tu by (intro exI [of _ ?s'] exI [of _ r]) simp
qed

text \<open>
  Claim C6, as amended.  For a request whose properties have distinct keys (it carries
  them in a \<^verbatim>\<open>std::unordered_map\<close>), \<^verbatim>\<open>CreateVertexRpc\<close> returns \<open>DONE\<close> with the gid of a
  new vertex; the store holds the vertex with exactly the given labels and properties
  and no edges, and its other records are unchanged; the accessor operations have
  written the deltas of the insertion, of every label and of every property to the WAL;
  the vertex updates of the transaction have an entry for the new vertex, and no delta
  has been buffered: every delta queue is as before.
\<close>

theorem CreateVertexRpc_inserts_and_registers:
  assumes "distinct (map fst (cv_properties req))"
  shows "\<exists>s' r. CreateVertexRpc s req = Inr ((DONE, vertex_generator (graph_db s)), s')
           \<and> vertices (graph_db s') (vertex_generator (graph_db s)) = Some r
           \<and> payload r = \<lparr> v_labels = set (cv_labels req),
                            v_properties = map_of (cv_properties req),
                            v_out = [], v_in = [] \<rparr>
           \<and> (\<forall>g. g \<noteq> vertex_generator (graph_db s)
                  \<longrightarrow> vertices (graph_db s') g = vertices (graph_db s) g)
           \<and> edges (graph_db s') = edges (graph_db s)
           \<and> wal (graph_db s')
               = wal (graph_db s)
                   @ StateDelta_CreateVertex
                       (db_accessor (updates_or_new (vertex_updates s) (cv_tx_id req)))
                       (vertex_generator (graph_db s))
                   # map (StateDelta_AddLabel
                            (db_accessor (updates_or_new (vertex_updates s) (cv_tx_id req)))
                            (vertex_generator (graph_db s))) (cv_labels req)
                   @ map (\<lambda>kv. StateDelta_PropsSetVertex
                                  (db_accessor (updates_or_new (vertex_updates s) (cv_tx_id req)))
                                  (vertex_generator (graph_db s)) (fst kv) (snd kv))
                       (cv_properties req)
           \<and> has_record (vertex_updates s') (cv_tx_id req) (vertex_generator (graph_db s))
           \<and> (\<forall>tx g. buffered (vertex_updates s') tx g = buffered (vertex_updates s) tx g)
           \<and> edge_updates s' = edge_updates s"
  using CreateVertexRpc_ok [of s req] map_of_rev_distinct [OF assms] by simp

theorem CreateVertexRpc_inserts_and_registers_witness:
  "distinct (map fst (cv_properties example_create_vertex))
   \<and> (\<exists>s' r. CreateVertexRpc example_empty example_create_vertex = Inr ((DONE, 4), s')
         \<and> vertices (graph_db s') 4 = Some r
         \<and> payload r = \<lparr> v_labels = {7}, v_properties = [2 \<mapsto> VInt 4],
                          v_out = [], v_in = [] \<rparr>
         \<and> has_record (vertex_updates s') 5 4
         \<and> buffered (vertex_updates s') 5 4 = [])"
proof -
  have d: "distinct (map fst (cv_properties example_create_vertex))"
    by (simp add: example_create_vertex_def)
  obtain s' r where
    c: "CreateVertexRpc example_empty example_create_vertex = Inr ((DONE, 4), s')"
    and v: "vertices (graph_db s') 4 = Some r"
    and p: "payload r = \<lparr> v_labels = set (cv_labels example_create_vertex),
                          v_properties = map_of (cv_properties example_create_vertex),
                          v_out = [], v_in = [] \<rparr>"
    and h: "has_record (vertex_updates s') (cv_tx_id example_create_vertex) 4"
    and b: "\<forall>tx g. buffered (vertex_updates s') tx g = buffered (vertex_updates example_empty) tx g"
    using CreateVertexRpc_inserts_and_registers [OF d, of example_empty]
    by (auto simp: example_empty_facts)
  have "payload r = \<lparr> v_labels = {7}, v_properties = [2 \<mapsto> VInt 4], v_out = [], v_in = [] \<rparr>"
    using p by (simp add: example_create_vertex_def)
  moreover have "buffered (vertex_updates s') 5 4 = []"
    using b by (simp add: example_empty_facts)
  moreover have "has_record (vertex_updates s') 5 4"
    using h by (simp add: example_create_vertex_def)
  ultimately show ?thesis using d c v by blast
qed

text \<open>
  Claim C6, as stated, fails: after \<^verbatim>\<open>CreateVertexRpc\<close> on a server without buffered
  updates the only entry of the vertex updates is the new vertex with an empty queue of
  deltas (line 70 registers the accessor with \<^verbatim>\<open>std::vector<database::StateDelta>{}\<close>).
\<close>

theorem CreateVertexRpc_buffers_no_delta:
  "CreateVertexRpc example_empty example_create_vertex = Inr ((DONE, 4), example_created)
   \<and> vertex_updates example_created = [(5, \<lparr> db_accessor = 5, deltas = [4 \<mapsto> (4, [])] \<rparr>)]
   \<and> buffered (vertex_updates example_created) 5 4 = []"
  by (simp add: CreateVertexRpc_def GetUpdates_def access_emplace_def access_find_def
        access_assign_def TransactionUpdates_CreateVertex_def emplace_if_absent_def
        store_defs example_defs example_create_vertex_def example_created_def buffered_def
        Let_def)

subsection \<open>The order of application\<close>

lemma queue_of_emplaced:
  "queue_of (emplaced tu g d) g' = queue_of tu g' @ (if g' = g then [d] else [])"
  by (auto simp: queue_of_def emplaced_def split: option.splits)

lemma dom_emplaced: "dom (deltas (emplaced tu g d)) = insert g (dom (deltas tu))"
  by (auto simp: emplaced_def)

lemma db_accessor_emplaced: "db_accessor (emplaced tu g d) = db_accessor tu"
  by (simp add: emplaced_def)

lemma emplace_all_queues:
  assumes "emplace_all T tu calls = Inr tu'"
  shows "queue_of tu' g = queue_of tu g @ filter (\<lambda>d. record_id T d = g) (map snd calls)"
    and "dom (deltas tu') = dom (deltas tu) \<union> record_id T ` set (map snd calls)"
    and "db_accessor tu' = db_accessor tu"
  using assms
proof (induction calls arbitrary: tu)
  case Nil
  { case 1 then show ?case by simp }
  { case 2 then show ?case by simp }
  { case 3 then show ?case by simp }
next
  case (Cons call calls)
  { case 1
    then have e: "emplace_all T (emplaced tu (record_id T (snd call)) (snd call)) calls = Inr tu'"
      by (auto simp: Emplace_eq split: if_splits)
    show ?case using Cons.IH(1) [OF e] by (auto simp: queue_of_emplaced) }
  { case 2
    then have e: "emplace_all T (emplaced tu (record_id T (snd call)) (snd call)) calls = Inr tu'"
      by (auto simp: Emplace_eq split: if_splits)
    show ?case using Cons.IH(2) [OF e] by (auto simp: dom_emplaced) }
  { case 3
    then have e: "emplace_all T (emplaced tu (record_id T (snd call)) (snd call)) calls = Inr tu'"
      by (auto simp: Emplace_eq split: if_splits)
    show ?case using Cons.IH(3) [OF e] by (simp add: db_accessor_emplaced) }
qed

lemma filter_concat_by_key:
  assumes "distinct order"
  shows "filter (\<lambda>d. k d = g) (concat (map (\<lambda>h. filter (\<lambda>d. k d = h) ds) order))
           = (if g \<in> set order then filter (\<lambda>d. k d = g) ds else [])"
  using assms
proof (induction order)
  case Nil
  then show ?case by simp
next
  case (Cons h hs)
  have same: "filter (\<lambda>d. k d = g) (filter (\<lambda>d. k d = h) ds)
                = (if g = h then filter (\<lambda>d. k d = g) ds else [])"
    by (induction ds) auto
  show ?case using Cons same by auto
qed

lemma log_of_prefix: "log_of r ds tr \<Longrightarrow> prefix (map fst tr) ds"
  by (simp add: log_of_def) (metis take_is_prefix)

lemma log_of_done_all: "log_of DONE ds tr \<Longrightarrow> map fst tr = ds"
  by (simp add: log_of_def)

lemma example_fifo_emplaced:
  "emplace_all VertexAccessor \<lparr> db_accessor = 5, deltas = Map.empty \<rparr> example_calls
     = Inr example_fifo"
  by (simp add: example_calls_def example_fifo_def Emplace_def FindAccessor_def FindVertex_def
        example_db_def example_add_label_def example_remove_label_def
        example_set_property_2_def delta_defs fun_upd_twist)

subsection \<open>Records are applied independently as long as no delta fails\<close>

lemma expected_result_local:
  "applicable T d \<Longrightarrow> same_record T a db1 db2 \<Longrightarrow>
     expected_result T db1 t a d = expected_result T db2 t a d"
  by (cases T)
     (auto simp: same_record_def expected_result_def write_access_def has_edges_def
        applicable_def)

lemma applied_local:
  "same_record T a db1 db2 \<Longrightarrow> same_record T a (applied T db1 t a d) (applied T db2 t a d)"
  by (cases T) (auto simp: same_record_def applied_def split: option.splits)

lemma applied_frame:
  "b \<noteq> a \<Longrightarrow> same_record T b (applied T db t a d) db"
  by (cases T) (auto simp: same_record_def applied_def split: option.splits)

lemma applied_others: "same_others T (applied T db t a d) db"
  by (cases T) (auto simp: same_others_def applied_def split: option.splits)

lemma same_record_refl: "same_record T g db db"
  by (cases T) (auto simp: same_record_def)

lemma same_record_sym: "same_record T g db1 db2 \<Longrightarrow> same_record T g db2 db1"
  by (cases T) (auto simp: same_record_def)

lemma same_record_trans:
  "same_record T g db1 db2 \<Longrightarrow> same_record T g db2 db3 \<Longrightarrow> same_record T g db1 db3"
  by (cases T) (auto simp: same_record_def)

lemma same_others_refl: "same_others T db db"
  by (cases T) (auto simp: same_others_def)

lemma same_others_trans:
  "same_others T db1 db2 \<Longrightarrow> same_others T db2 db3 \<Longrightarrow> same_others T db1 db3"
  by (cases T) (auto simp: same_others_def)

lemma sequential_frame:
  "sequential T t db xs = (r, db', tr) \<Longrightarrow>
     same_others T db' db \<and> (\<forall>b. b \<notin> fst ` set xs \<longrightarrow> same_record T b db' db)"
proof (induction xs arbitrary: db r db' tr)
  case Nil
  then show ?case by (simp add: same_others_refl same_record_refl)
next
  case (Cons x xs)
  show ?case
  proof (cases "expected_result T db t (fst x) (snd x) = DONE")
    case True
    then obtain tr2 where
      s: "sequential T t (applied T db t (fst x) (snd x)) xs = (r, db', tr2)"
      using Cons.prems by (auto split: prod.splits)
    have o: "same_others T db' (applied T db t (fst x) (snd x))"
      and f: "\<forall>b. b \<notin> fst ` set xs \<longrightarrow> same_record T b db' (applied T db t (fst x) (snd x))"
      using Cons.IH [OF s] by auto
    have "same_others T db' db"
      using o applied_others same_others_trans by blast
    moreover have "same_record T b db' db" if "b \<notin> fst ` set (x # xs)" for b
    proof -
      have "b \<noteq> fst x" "b \<notin> fst ` set xs" using that by auto
      then show ?thesis using f applied_frame same_record_trans by blast
    qed
    ultimately show ?thesis by blast
  next
    case False
    then have "db' = db" using Cons.prems by auto
    then show ?thesis by (simp add: same_others_refl same_record_refl)
  qed
qed

lemma sequential_local:
  "list_all (applicable T) ds \<Longrightarrow> same_record T a db1 db2 \<Longrightarrow>
   sequential T t db1 (map (Pair a) ds) = (r, db1', tr) \<Longrightarrow>
     \<exists>db2'. sequential T t db2 (map (Pair a) ds) = (r, db2', tr) \<and> same_record T a db1' db2'"
proof (induction ds arbitrary: db1 db2 r db1' tr)
  case Nil
  then show ?case by auto
next
  case (Cons d ds)
  have ad: "applicable T d" and ads: "list_all (applicable T) ds" using Cons.prems(1) by auto
  have e: "expected_result T db1 t a d = expected_result T db2 t a d"
    using ad Cons.prems(2) by (rule expected_result_local)
  show ?case
  proof (cases "expected_result T db1 t a d = DONE")
    case True
    then obtain tr2 where
      s: "sequential T t (applied T db1 t a d) (map (Pair a) ds) = (r, db1', tr2)"
      and tr: "tr = (d, DONE) # tr2"
      using Cons.prems(3) by (auto split: prod.splits)
    obtain db2' where
      s2: "sequential T t (applied T db2 t a d) (map (Pair a) ds) = (r, db2', tr2)"
      and r2: "same_record T a db1' db2'"
      using Cons.IH [OF ads applied_local [OF Cons.prems(2)] s] by blast
    show ?thesis using True e s2 r2 tr by auto
  next
    case False
    then have "r = expected_result T db1 t a d" "db1' = db1" "tr = [(d, r)]"
      using Cons.prems(3) by auto
    then show ?thesis using False e Cons.prems(2) by auto
  qed
qed


lemma entries_Cons: "entries m (g # gs) = entries m [g] @ entries m gs"
  by (simp add: entries_def)

lemma entries_single:
  "own_accessors m \<Longrightarrow>
     entries m [g] = map (Pair g) (case m g of None \<Rightarrow> [] | Some (acc, ds) \<Rightarrow> ds)"
  by (auto simp: entries_def own_accessors_def split: option.splits)

lemma entries_accessors: "own_accessors m \<Longrightarrow> fst ` set (entries m order) \<subseteq> set order"
proof
  fix a
  assume o: "own_accessors m" and a: "a \<in> fst ` set (entries m order)"
  then obtain g acc ds where g: "g \<in> set order" and m: "m g = Some (acc, ds)"
    and "a = acc"
    by (auto simp: entries_def split: option.splits) metis
  then show "a \<in> set order" using o by (auto simp: own_accessors_def)
qed

lemma set_entries: "set (entries m order) = (\<Union>g\<in>set order. set (entries m [g]))"
  by (auto simp: entries_def)

lemma applied_wal:
  "expected_result T db t a d = DONE \<Longrightarrow> wal (applied T db t a d) = wal db @ [logged T t a d]"
  by (cases T)
     (auto simp: expected_result_def write_access_def applied_def
           split: option.splits if_splits)

lemma sequential_wal:
  "sequential T t db xs = (DONE, db', tr) \<Longrightarrow>
     wal db' = wal db @ map (\<lambda>x. logged T t (fst x) (snd x)) xs"
proof (induction xs arbitrary: db db' tr)
  case Nil
  then show ?case by simp
next
  case (Cons x xs)
  have e: "expected_result T db t (fst x) (snd x) = DONE"
    using Cons.prems by (auto split: if_splits)
  then obtain tr2 where
    s: "sequential T t (applied T db t (fst x) (snd x)) xs = (DONE, db', tr2)"
    using Cons.prems by (auto split: prod.splits)
  show ?case using Cons.IH [OF s] applied_wal [OF e] by simp
qed

lemma sequential_records:
  assumes own: "own_accessors m"
    and app: "\<forall>g acc ds. m g = Some (acc, ds) \<longrightarrow> list_all (applicable T) ds"
  shows "distinct order \<Longrightarrow>
     (if \<forall>g\<in>set order. fst (sequential T t db (entries m [g])) = DONE
      then \<exists>db' tr. sequential T t db (entries m order) = (DONE, db', tr)
             \<and> (\<forall>g\<in>set order.
                   same_record T g db' (fst (snd (sequential T t db (entries m [g])))))
      else fst (sequential T t db (entries m order)) \<noteq> DONE)"
proof (induction order arbitrary: db)
  case Nil
  then show ?case by (simp add: entries_def)
next
  case (Cons g gs)
  let ?q = "\<lambda>h. case m h of None \<Rightarrow> [] | Some (acc, ds) \<Rightarrow> ds"
  have qa: "list_all (applicable T) (?q h)" for h
    using app by (cases "m h") auto
  have ng: "g \<notin> set gs" and dg: "distinct gs" using Cons.prems by auto
  obtain r1 db1 tr1 where s1: "sequential T t db (entries m [g]) = (r1, db1, tr1)"
    by (cases "sequential T t db (entries m [g])")
  have sq: "sequential T t db (entries m (g # gs)) =
              (if r1 \<noteq> DONE then (r1, db1, tr1)
               else (case sequential T t db1 (entries m gs) of
                       (r', db'', tr') \<Rightarrow> (r', db'', tr1 @ tr')))"
    unfolding entries_Cons [of m g gs] sequential_append using s1 by simp
  have fr: "same_record T h db1 db" if "h \<noteq> g" for h
  proof -
    have "h \<notin> fst ` set (entries m [g])"
      using entries_accessors [OF own, of "[g]"] that by auto
    then show ?thesis using sequential_frame [OF s1] by blast
  qed
  have loc: "fst (sequential T t db1 (entries m [h])) = fst (sequential T t db (entries m [h]))
             \<and> same_record T h (fst (snd (sequential T t db1 (entries m [h]))))
                                (fst (snd (sequential T t db (entries m [h]))))"
    if hg: "h \<noteq> g" for h
  proof -
    obtain r x tr where a: "sequential T t db1 (map (Pair h) (?q h)) = (r, x, tr)"
      by (cases "sequential T t db1 (map (Pair h) (?q h))")
    obtain y where b: "sequential T t db (map (Pair h) (?q h)) = (r, y, tr)"
      and c: "same_record T h x y"
      using sequential_local [OF qa fr [OF hg] a] by blast
    show ?thesis unfolding entries_single [OF own] using a b c by simp
  qed
  show ?case
  proof (cases "r1 = DONE")
    case False
    then show ?thesis using sq s1 by simp
  next
    case True
    have cond: "(\<forall>h\<in>set (g # gs). fst (sequential T t db (entries m [h])) = DONE)
                  \<longleftrightarrow> (\<forall>h\<in>set gs. fst (sequential T t db1 (entries m [h])) = DONE)"
    proof -
      have "fst (sequential T t db1 (entries m [h])) = fst (sequential T t db (entries m [h]))"
        if "h \<in> set gs" for h
      proof -
        have "h \<noteq> g" using that ng by auto
        then show ?thesis using loc by blast
      qed
      then show ?thesis using s1 True by simp
    qed
    show ?thesis
    proof (cases "\<forall>h\<in>set gs. fst (sequential T t db1 (entries m [h])) = DONE")
      case all: True
      obtain db' tr2 where s2: "sequential T t db1 (entries m gs) = (DONE, db', tr2)"
        and f2: "\<forall>h\<in>set gs. same_record T h db'
                   (fst (snd (sequential T t db1 (entries m [h]))))"
        using Cons.IH [OF dg, of db1] all by auto
      have s: "sequential T t db (entries m (g # gs)) = (DONE, db', tr1 @ tr2)"
        using sq True s2 by simp
      have "g \<notin> fst ` set (entries m gs)"
        using entries_accessors [OF own, of gs] ng by auto
      then have "same_record T g db' db1" using sequential_frame [OF s2] by blast
      then have fg: "same_record T g db' (fst (snd (sequential T t db (entries m [g]))))"
        using s1 by simp
      have fh: "same_record T h db' (fst (snd (sequential T t db (entries m [h]))))"
        if "h \<in> set gs" for h
      proof -
        have "h \<noteq> g" using that ng by auto
        then show ?thesis using f2 that loc same_record_trans by blast
      qed
      show ?thesis using cond all s fg fh by auto
    next
      case none: False
      then have "fst (sequential T t db1 (entries m gs)) \<noteq> DONE"
        using Cons.IH [OF dg, of db1] by auto
      then have "fst (sequential T t db (entries m (g # gs))) \<noteq> DONE"
        using sq True by (auto split: prod.splits)
      then show ?thesis using cond none by auto
    qed
  qed
qed

lemma sequential_order_independent:
  assumes own: "own_accessors m"
    and app: "\<forall>g acc ds. m g = Some (acc, ds) \<longrightarrow> list_all (applicable T) ds"
    and d1: "distinct o1" and d2: "distinct o2" and eq: "set o1 = set o2"
    and s1: "sequential T t db (entries m o1) = (DONE, db1, tr1)"
  shows "\<exists>db2 tr2. sequential T t db (entries m o2) = (DONE, db2, tr2)
           \<and> vertices db2 = vertices db1 \<and> edges db2 = edges db1
           \<and> set (wal db2) = set (wal db1)"
proof -
  note r1 = sequential_records [OF own app d1, where t = t and db = db]
  note r2 = sequential_records [OF own app d2, where t = t and db = db]
  have all: "\<forall>g\<in>set o1. fst (sequential T t db (entries m [g])) = DONE"
    using r1 s1 by (auto split: if_splits)
  have f1: "\<forall>g\<in>set o1. same_record T g db1 (fst (snd (sequential T t db (entries m [g]))))"
    using r1 s1 all by auto
  obtain db2 tr2 where s2: "sequential T t db (entries m o2) = (DONE, db2, tr2)"
    and f2: "\<forall>g\<in>set o2. same_record T g db2 (fst (snd (sequential T t db (entries m [g]))))"
    using r2 all eq by auto
  have sr: "same_record T g db2 db1" for g
  proof (cases "g \<in> set o1")
    case True
    then show ?thesis using f1 f2 eq same_record_sym same_record_trans by blast
  next
    case False
    have "g \<notin> fst ` set (entries m o1)" "g \<notin> fst ` set (entries m o2)"
      using entries_accessors [OF own, of o1] entries_accessors [OF own, of o2] False eq
      by auto
    then have "same_record T g db1 db" "same_record T g db2 db"
      using sequential_frame [OF s1] sequential_frame [OF s2] by blast+
    then show ?thesis using same_record_sym same_record_trans by blast
  qed
  have so: "same_others T db2 db1"
  proof -
    have "same_others T db1 db" "same_others T db2 db"
      using sequential_frame [OF s1] sequential_frame [OF s2] by blast+
    then show ?thesis by (cases T) (auto simp: same_others_def)
  qed
  have v: "vertices db2 = vertices db1" and e: "edges db2 = edges db1"
    using sr so by (cases T; auto simp: same_record_def same_others_def fun_eq_iff)+
  have w: "set (wal db2) = set (wal db1)"
    using sequential_wal [OF s1] sequential_wal [OF s2] set_entries [of m o1]
      set_entries [of m o2] eq
    by simp
  show ?thesis using s2 v e w by blast
qed

lemma own_accessors_emplaced:
  "own_accessors (deltas tu) \<Longrightarrow> own_accessors (deltas (emplaced tu g d))"
  by (auto simp: own_accessors_def emplaced_def split: option.splits if_splits)

lemma own_accessors_emplace_all:
  "own_accessors (deltas tu) \<Longrightarrow> emplace_all T tu calls = Inr tu' \<Longrightarrow>
     own_accessors (deltas tu')"
proof (induction calls arbitrary: tu)
  case Nil
  then show ?case by simp
next
  case (Cons call calls)
  have e: "emplace_all T (emplaced tu (record_id T (snd call)) (snd call)) calls = Inr tu'"
    using Cons.prems(2) by (auto simp: Emplace_eq split: if_splits)
  show ?case using Cons.IH [OF own_accessors_emplaced [OF Cons.prems(1)] e] .
qed

lemma example_fifo_entries:
  "entries (deltas example_fifo) [2, 1]
     = [(2, example_set_property_2), (1, example_add_label), (1, example_remove_label)]"
  by (simp add: entries_def example_fifo_def)

lemma example_fifo_sequential:
  "sequential VertexAccessor 5 example_db
     [(2, example_set_property_2), (1, example_add_label), (1, example_remove_label)]
     = (DONE, example_fifo_applied,
        [(example_set_property_2, DONE), (example_add_label, DONE),
         (example_remove_label, DONE)])"
  by (simp add: sequential_defs delta_defs example_defs example_remove_label_def
        example_set_property_2_def)

text \<open>
  Claim C2, as amended.  Let the updates of a transaction start without deltas and
  receive the deltas of a sequence of calls of \<^verbatim>\<open>Emplace\<close>, all of types that \<^verbatim>\<open>Apply\<close>
  handles.  Then for every iteration order of the underlying \<^verbatim>\<open>unordered_map\<close>, \<^verbatim>\<open>Apply\<close>
  returns what the sequence of section 4.7 gives for the records in the iteration order
  and, for each record, the deltas emplaced for that record in the order of the calls:
  each delta is applied to the database that the deltas before it have left, and the
  first result other than \<open>DONE\<close> ends the application for this record and for every
  record after it.  So for every record the deltas applied are an initial segment of the
  deltas emplaced for it, in the order in which they were emplaced, and all of them if
  the result is \<open>DONE\<close>; the order between deltas of different records is that of the
  iteration only.  If the result is \<open>DONE\<close> and every entry that the updates had at
  the start holds the accessor of its own record, the records have not constrained each
  other: for every other iteration
  order \<open>order'\<close> the result is \<open>DONE\<close> as well, with the same vertices and edges, and
  with the same deltas in the WAL.
\<close>

theorem Apply_is_fifo_per_record:
  assumes n: "no_deltas tu0"
    and e: "emplace_all T tu0 calls = Inr tu"
    and o: "iteration_order (deltas tu) order"
    and a: "list_all (applicable T) (map snd calls)"
  shows "\<exists>r db' tr. TransactionUpdates_Apply T order tu db = Inr (r, db', tr)
           \<and> sequential T (db_accessor tu) db (entries (deltas tu) order) = (r, db', tr)
           \<and> map snd (entries (deltas tu) order)
               = concat (map (\<lambda>g. filter (\<lambda>d. record_id T d = g) (map snd calls)) order)
           \<and> log_of r (concat (map (\<lambda>g. filter (\<lambda>d. record_id T d = g) (map snd calls))
                                   order)) tr
           \<and> (\<forall>g. prefix (filter (\<lambda>d. record_id T d = g) (map fst tr))
                         (filter (\<lambda>d. record_id T d = g) (map snd calls)))
           \<and> (r = DONE \<longrightarrow>
                (\<forall>g. filter (\<lambda>d. record_id T d = g) (map fst tr)
                      = filter (\<lambda>d. record_id T d = g) (map snd calls)))
           \<and> (r = DONE \<and> own_accessors (deltas tu0) \<and> iteration_order (deltas tu) order'
                \<longrightarrow> (\<exists>db'' tr'. TransactionUpdates_Apply T order' tu db = Inr (DONE, db'', tr')
                        \<and> vertices db'' = vertices db' \<and> edges db'' = edges db'
                        \<and> set (wal db'') = set (wal db')))"
proof -
  let ?ds = "map snd calls"
  let ?Q = "concat (map (\<lambda>g. filter (\<lambda>d. record_id T d = g) ?ds) order)"
  have q: "queue_of tu g = filter (\<lambda>d. record_id T d = g) ?ds" for g
    using emplace_all_queues(1) [OF e, of g] n by (simp add: no_deltas_def)
  have d: "record_id T ` set ?ds \<subseteq> dom (deltas tu)"
    using emplace_all_queues(2) [OF e] by auto
  have qd: "queued (deltas tu) order = ?Q"
  proof -
    have "(\<lambda>g. case deltas tu g of None \<Rightarrow> [] | Some (acc, ds) \<Rightarrow> ds)
            = (\<lambda>g. filter (\<lambda>d. record_id T d = g) ?ds)"
      using q by (simp add: queue_of_def fun_eq_iff)
    then show ?thesis by (simp add: queued_def)
  qed
  have ap: "list_all (applicable T) ds'" if "deltas tu g = Some (acc, ds')" for g acc ds'
  proof -
    have "ds' = filter (\<lambda>d. record_id T d = g) ?ds"
      using q [of g] that by (simp add: queue_of_def)
    then show ?thesis using a by (auto simp: list_all_iff)
  qed
  obtain r db' tr where
    sq: "sequential T (db_accessor tu) db (entries (deltas tu) order) = (r, db', tr)"
    by (cases "sequential T (db_accessor tu) db (entries (deltas tu) order)")
  have r: "apply_records T (db_accessor tu) db (deltas tu) order = Inr (r, db', tr)"
    using apply_records_sequential [of "deltas tu" T "db_accessor tu" db order] ap sq
    by simp
  have en: "map snd (entries (deltas tu) order) = ?Q"
    using queued_entries [of "deltas tu" order] qd by simp
  have l: "log_of r ?Q tr"
    using apply_records_log [OF r] qd by simp
  have fq: "filter (\<lambda>d. record_id T d = g) ?Q = filter (\<lambda>d. record_id T d = g) ?ds" for g
  proof (cases "g \<in> set order")
    case True
    then show ?thesis
      using filter_concat_by_key [of order "record_id T" g ?ds] o
      by (simp add: iteration_order_def)
  next
    case False
    then have "g \<notin> record_id T ` set ?ds" using o d by (auto simp: iteration_order_def)
    then have "filter (\<lambda>d. record_id T d = g) ?ds = []"
      by (auto simp: filter_empty_conv)
    then show ?thesis
      using filter_concat_by_key [of order "record_id T" g ?ds] o False
      by (simp add: iteration_order_def)
  qed
  have p: "prefix (filter (\<lambda>d. record_id T d = g) (map fst tr))
                  (filter (\<lambda>d. record_id T d = g) ?ds)" for g
    using filter_mono_prefix [OF log_of_prefix [OF l], of "\<lambda>d. record_id T d = g"] fq [of g]
    by simp
  have f: "filter (\<lambda>d. record_id T d = g) (map fst tr)
             = filter (\<lambda>d. record_id T d = g) ?ds" if "r = DONE" for g
    using log_of_done_all [of ?Q tr] l that fq [of g] by simp
  have ap': "\<forall>g acc ds. deltas tu g = Some (acc, ds) \<longrightarrow> list_all (applicable T) ds"
    using ap by blast
  have i: "\<exists>db'' tr'. TransactionUpdates_Apply T order' tu db = Inr (DONE, db'', tr')
             \<and> vertices db'' = vertices db' \<and> edges db'' = edges db'
             \<and> set (wal db'') = set (wal db')"
    if rd: "r = DONE" and own0: "own_accessors (deltas tu0)"
      and o': "iteration_order (deltas tu) order'"
  proof -
    have own: "own_accessors (deltas tu)"
      using own0 e by (rule own_accessors_emplace_all)
    have d1: "distinct order" and d2: "distinct order'" and eq: "set order = set order'"
      using o o' by (auto simp: iteration_order_def)
    have s1: "sequential T (db_accessor tu) db (entries (deltas tu) order) = (DONE, db', tr)"
      using sq rd by simp
    obtain db'' tr' where
      s2: "sequential T (db_accessor tu) db (entries (deltas tu) order') = (DONE, db'', tr')"
      and v: "vertices db'' = vertices db'" and ed: "edges db'' = edges db'"
      and w: "set (wal db'') = set (wal db')"
      using sequential_order_independent [OF own ap' d1 d2 eq s1] by blast
    have "TransactionUpdates_Apply T order' tu db = Inr (DONE, db'', tr')"
      using apply_records_sequential [of "deltas tu" T "db_accessor tu" db order'] ap s2
      by (simp add: TransactionUpdates_Apply_def)
    then show ?thesis using v ed w by blast
  qed
  have "TransactionUpdates_Apply T order tu db = Inr (r, db', tr)"
    using r by (simp add: TransactionUpdates_Apply_def)
  then show ?thesis using sq en l p f i by blast
qed

theorem Apply_is_fifo_per_record_witness:
  "no_deltas \<lparr> db_accessor = 5, deltas = Map.empty \<rparr>
   \<and> emplace_all VertexAccessor \<lparr> db_accessor = 5, deltas = Map.empty \<rparr> example_calls
     = Inr example_fifo
   \<and> iteration_order (deltas example_fifo) [2, 1]
   \<and> list_all (applicable VertexAccessor) (map snd example_calls)
   \<and> TransactionUpdates_Apply VertexAccessor [2, 1] example_fifo example_db
       = Inr (DONE, example_fifo_applied,
              [(example_set_property_2, DONE), (example_add_label, DONE),
               (example_remove_label, DONE)])
   \<and> filter (\<lambda>d. record_id VertexAccessor d = 1)
        [example_set_property_2, example_add_label, example_remove_label]
       = [example_add_label, example_remove_label]
   \<and> filter (\<lambda>d. record_id VertexAccessor d = 1) (map snd example_calls)
       = [example_add_label, example_remove_label]
   \<and> own_accessors (deltas \<lparr> db_accessor = 5, deltas = Map.empty \<rparr>)
   \<and> iteration_order (deltas example_fifo) [1, 2]
   \<and> (\<exists>db'' tr'. TransactionUpdates_Apply VertexAccessor [1, 2] example_fifo example_db
                     = Inr (DONE, db'', tr')
          \<and> vertices db'' = vertices example_fifo_applied
          \<and> edges db'' = edges example_fifo_applied
          \<and> set (wal db'') = set (wal example_fifo_applied))"
proof -
  have n: "no_deltas \<lparr> db_accessor = 5, deltas = Map.empty \<rparr>"
    by (simp add: no_deltas_def queue_of_def)
  have o: "iteration_order (deltas example_fifo) [2, 1]"
    by (auto simp: iteration_order_def example_fifo_def)
  have a: "list_all (applicable VertexAccessor) (map snd example_calls)"
    by (simp add: example_calls_def applicable_def example_add_label_def
          example_remove_label_def example_set_property_2_def delta_defs)
  have c: "filter (\<lambda>d. record_id VertexAccessor d = 1) (map snd example_calls)
             = [example_add_label, example_remove_label]"
    by (simp add: example_calls_def record_id_def example_add_label_def
          example_remove_label_def example_set_property_2_def delta_defs)
  have t: "db_accessor example_fifo = 5" by (simp add: example_fifo_def)
  obtain r db' tr where
    r: "TransactionUpdates_Apply VertexAccessor [2, 1] example_fifo example_db = Inr (r, db', tr)"
    and s: "sequential VertexAccessor (db_accessor example_fifo) example_db
              (entries (deltas example_fifo) [2, 1]) = (r, db', tr)"
    and f: "r = DONE \<longrightarrow>
              (\<forall>g. filter (\<lambda>d. record_id VertexAccessor d = g) (map fst tr)
                    = filter (\<lambda>d. record_id VertexAccessor d = g) (map snd example_calls))"
    and i: "r = DONE \<and> own_accessors (deltas \<lparr> db_accessor = 5, deltas = Map.empty \<rparr>)
              \<and> iteration_order (deltas example_fifo) [1, 2]
            \<longrightarrow> (\<exists>db'' tr'. TransactionUpdates_Apply VertexAccessor [1, 2] example_fifo example_db
                                = Inr (DONE, db'', tr')
                    \<and> vertices db'' = vertices db' \<and> edges db'' = edges db'
                    \<and> set (wal db'') = set (wal db'))"
    using Apply_is_fifo_per_record
            [OF n example_fifo_emplaced o a, of example_db "[1, 2]"]
    by blast
  have ow: "own_accessors (deltas \<lparr> db_accessor = 5, deltas = Map.empty \<rparr>)"
    by (simp add: own_accessors_def)
  have o2: "iteration_order (deltas example_fifo) [1, 2]"
    by (auto simp: iteration_order_def example_fifo_def)
  have rd: "r = DONE" and db': "db' = example_fifo_applied"
    and tr: "tr = [(example_set_property_2, DONE), (example_add_label, DONE),
                   (example_remove_label, DONE)]"
    using s unfolding t example_fifo_entries example_fifo_sequential by simp_all
  have "filter (\<lambda>d. record_id VertexAccessor d = 1)
          [example_set_property_2, example_add_label, example_remove_label]
          = [example_add_label, example_remove_label]"
    using f rd c tr by simp
  moreover have "\<exists>db'' tr'. TransactionUpdates_Apply VertexAccessor [1, 2] example_fifo example_db
                     = Inr (DONE, db'', tr')
          \<and> vertices db'' = vertices example_fifo_applied
          \<and> edges db'' = edges example_fifo_applied
          \<and> set (wal db'') = set (wal example_fifo_applied)"
    using i rd ow o2 db' by simp
  ultimately show ?thesis using n example_fifo_emplaced o a c r rd db' tr ow o2 by simp
qed

text \<open>
  Claim C2, as stated, fails in its second part: the deltas buffered for one record
  decide whether those of another record are applied.  Transaction 5 has buffered a
  label for vertex 1 and a property for vertex 3, which transaction 9 has locked.  If
  the iteration reaches vertex 1 first, the label is added before the lock timeout ends
  \<^verbatim>\<open>Apply\<close>; if it reaches vertex 3 first, the lock timeout ends \<^verbatim>\<open>Apply\<close> at line 166
  and the delta of vertex 1 is never applied.
\<close>

theorem Apply_stops_later_records:
  "emplace_all VertexAccessor \<lparr> db_accessor = 5, deltas = Map.empty \<rparr>
       [(example_db, example_add_label), (example_db, example_set_property)]
     = Inr example_two_records
   \<and> iteration_order (deltas example_two_records) [1, 3]
   \<and> iteration_order (deltas example_two_records) [3, 1]
   \<and> TransactionUpdates_Apply VertexAccessor [1, 3] example_two_records example_db
       = Inr (LOCK_TIMEOUT_ERROR, example_labelled,
              [(example_add_label, DONE), (example_set_property, LOCK_TIMEOUT_ERROR)])
   \<and> TransactionUpdates_Apply VertexAccessor [3, 1] example_two_records example_db
       = Inr (LOCK_TIMEOUT_ERROR, example_db, [(example_set_property, LOCK_TIMEOUT_ERROR)])
   \<and> wal example_labelled = [example_add_label]
   \<and> wal example_db = []"
proof -
  have e: "emplace_all VertexAccessor \<lparr> db_accessor = 5, deltas = Map.empty \<rparr>
             [(example_db, example_add_label), (example_db, example_set_property)]
           = Inr example_two_records"
    by (simp add: Emplace_def FindAccessor_def FindVertex_def delta_defs example_defs)
  have o: "iteration_order (deltas example_two_records) [1, 3]"
    "iteration_order (deltas example_two_records) [3, 1]"
    by (auto simp: iteration_order_def example_two_records_def)
  have a1: "TransactionUpdates_Apply VertexAccessor [1, 3] example_two_records example_db
       = Inr (LOCK_TIMEOUT_ERROR, example_labelled,
              [(example_add_label, DONE), (example_set_property, LOCK_TIMEOUT_ERROR)])"
    by (simp add: apply_defs store_defs delta_defs example_defs)
  have a2: "TransactionUpdates_Apply VertexAccessor [3, 1] example_two_records example_db
       = Inr (LOCK_TIMEOUT_ERROR, example_db, [(example_set_property, LOCK_TIMEOUT_ERROR)])"
    by (simp add: apply_defs store_defs delta_defs example_defs)
  have w: "wal example_labelled = [example_add_label]" "wal example_db = []"
    by (simp_all add: delta_defs example_defs)
  show ?thesis using e o a1 a2 w by simp
qed

subsection \<open>What the handlers buffer\<close>

text \<open>
  A server starts without buffered updates, and every handler leaves only deltas of
  types that \<^verbatim>\<open>Apply\<close> handles for the kind of their record.  So the condition under
  which the statements about \<^verbatim>\<open>Apply\<close> are made holds in every state that the handlers
  can reach.
\<close>

lemma applicable_factories:
  "applicable EdgeAccessor (StateDelta_RemoveEdge tx e)"
  "applicable VertexAccessor (StateDelta_RemoveOutEdge tx v a)"
  "applicable VertexAccessor (StateDelta_RemoveInEdge tx v a)"
  "applicable VertexAccessor (StateDelta_AddOutEdge tx v ta ea et)"
  "applicable VertexAccessor (StateDelta_AddInEdge tx v fa ea et)"
  "applicable VertexAccessor (StateDelta_RemoveVertex tx v ce)"
  by (simp_all add: applicable_def delta_defs)

lemma all_applicable_Emplace:
  assumes "GetUpdates_Emplace T db m tx d = Inr (r, m')"
    and "applicable T d" and "\<forall>tx'. all_applicable T m tx'"
  shows "\<forall>tx'. all_applicable T m' tx'"
proof -
  have ob: "obtainable T db m tx (record_id T d)"
    using assms(1) by (simp add: GetUpdates_Emplace_eq split: if_splits)
  have "\<forall>tx' g'. buffered m' tx' g' =
          buffered m tx' g' @ (if tx' = tx \<and> g' = record_id T d then [d] else [])"
    using GetUpdates_Emplace_ok [OF ob] assms(1) by auto
  then show ?thesis using assms(2,3) by (simp add: all_applicable_def)
qed

lemma well_buffered_initial:
  "well_buffered \<lparr> graph_db = db, vertex_updates = [], edge_updates = [] \<rparr>"
  by (simp add: well_buffered_def all_applicable_def buffered_def access_find_def)

lemma well_buffered_UpdateRpc:
  assumes "UpdateRpc s delta = Inr (r, s')" and "well_buffered s"
  shows "well_buffered s'"
proof -
  obtain T where k: "update_kind delta = Some T"
    using assms(1) by (cases "update_kind delta") (auto simp: update_kind_def UpdateRpc_def split: if_splits)
  obtain m' where e: "GetUpdates_Emplace T (graph_db s) (updates_of T s) (transaction_id delta) delta
                        = Inr (r, m')"
    and s': "s' = (case T of VertexAccessor \<Rightarrow> s \<lparr> vertex_updates := m' \<rparr>
                          | EdgeAccessor \<Rightarrow> s \<lparr> edge_updates := m' \<rparr>)"
    using assms(1) UpdateRpc_eq [OF k, of s] by (auto split: sum.splits)
  have "\<forall>tx. all_applicable T (updates_of T s) tx"
    using assms(2) by (cases T) (simp_all add: well_buffered_def updates_of_def)
  then have "\<forall>tx. all_applicable T m' tx"
    using all_applicable_Emplace [OF e update_kind_applicable [OF k]] by simp
  then show ?thesis using assms(2) s' by (cases T) (simp_all add: well_buffered_def)
qed

lemma well_buffered_RemoveVertexRpc:
  assumes "RemoveVertexRpc s req = Inr (r, s')" and "well_buffered s"
  shows "well_buffered s'"
  using assms
  by (auto simp: RemoveVertexRpc_def Let_def well_buffered_def split: sum.splits
           dest!: all_applicable_Emplace [OF _ applicable_factories(6)])

lemma well_buffered_AddInEdgeRpc:
  assumes "AddInEdgeRpc s tx fa v ea et = Inr (r, s')" and "well_buffered s"
  shows "well_buffered s'"
  using assms
  by (auto simp: AddInEdgeRpc_def Let_def well_buffered_def split: sum.splits
           dest!: all_applicable_Emplace [OF _ applicable_factories(5)])

lemma well_buffered_RemoveInEdgeRpc:
  assumes "RemoveInEdgeRpc s tx v ea = Inr (r, s')" and "well_buffered s"
  shows "well_buffered s'"
  using assms
  by (auto simp: RemoveInEdgeRpc_def well_buffered_def split: sum.splits
           dest!: all_applicable_Emplace [OF _ applicable_factories(3)])

lemma well_buffered_buffered:
  assumes "well_buffered s"
    and "\<forall>tx g. \<exists>ds. buffered (vertex_updates s') tx g = buffered (vertex_updates s) tx g @ ds
                    \<and> list_all (applicable VertexAccessor) ds"
    and "\<forall>tx g. \<exists>ds. buffered (edge_updates s') tx g = buffered (edge_updates s) tx g @ ds
                    \<and> list_all (applicable EdgeAccessor) ds"
  shows "well_buffered s'"
  unfolding well_buffered_def all_applicable_def
proof (intro allI conjI)
  fix tx g
  obtain ds where "buffered (vertex_updates s') tx g = buffered (vertex_updates s) tx g @ ds"
    and "list_all (applicable VertexAccessor) ds"
    using assms(2) by blast
  then show "list_all (applicable VertexAccessor) (buffered (vertex_updates s') tx g)"
    using assms(1) by (simp add: well_buffered_def all_applicable_def)
next
  fix tx g
  obtain ds where "buffered (edge_updates s') tx g = buffered (edge_updates s) tx g @ ds"
    and "list_all (applicable EdgeAccessor) ds"
    using assms(3) by blast
  then show "list_all (applicable EdgeAccessor) (buffered (edge_updates s') tx g)"
    using assms(1) by (simp add: well_buffered_def all_applicable_def)
qed

lemma well_buffered_RemoveEdge:
  assumes "RemoveEdge s data = Inr (r, s')" and "well_buffered s"
  shows "well_buffered s'"
proof -
  have ob: "obtainable EdgeAccessor (graph_db s) (edge_updates s) (re_tx_id data) (re_edge_id data)
      \<and> obtainable VertexAccessor (graph_db s) (vertex_updates s) (re_tx_id data)
          (re_vertex_from_id data)
      \<and> (worker_id (re_vertex_to_address data) = WorkerId (graph_db s)
         \<longrightarrow> obtainable VertexAccessor (graph_db s) (vertex_updates s) (re_tx_id data)
               (gid (re_vertex_to_address data)))"
    using assms(1) RemoveEdge_fails [of s data] by (cases ?thesis) auto
  then obtain s'' where r: "RemoveEdge s data = Inr (DONE, s'')"
    and be: "\<forall>tx g. buffered (edge_updates s'') tx g =
                 buffered (edge_updates s) tx g
                   @ (if tx = re_tx_id data \<and> g = re_edge_id data
                      then [StateDelta_RemoveEdge (re_tx_id data) (re_edge_id data)] else [])"
    and bv: "\<forall>tx g. buffered (vertex_updates s'') tx g =
                 buffered (vertex_updates s) tx g
                   @ ((if tx = re_tx_id data \<and> g = re_vertex_from_id data
                      then [StateDelta_RemoveOutEdge (re_tx_id data) (re_vertex_from_id data)
                              (Address (WorkerId (graph_db s)) (re_edge_id data))]
                      else [])
                   @ (if tx = re_tx_id data
                         \<and> worker_id (re_vertex_to_address data) = WorkerId (graph_db s)
                         \<and> g = gid (re_vertex_to_address data)
                      then [StateDelta_RemoveInEdge (re_tx_id data)
                              (gid (re_vertex_to_address data))
                              (Address (WorkerId (graph_db s)) (re_edge_id data))]
                      else []))"
    using RemoveEdge_ok [of s data] by auto
  have same: "s'' = s'" using r assms(1) by simp
  show ?thesis
  proof (rule well_buffered_buffered [OF assms(2)])
    show "\<forall>tx g. \<exists>ds. buffered (vertex_updates s') tx g = buffered (vertex_updates s) tx g @ ds
                    \<and> list_all (applicable VertexAccessor) ds"
      using bv same by (auto simp: applicable_factories)
    show "\<forall>tx g. \<exists>ds. buffered (edge_updates s') tx g = buffered (edge_updates s) tx g @ ds
                    \<and> list_all (applicable EdgeAccessor) ds"
      using be same by (auto simp: applicable_factories)
  qed
qed

lemma buffered_access_remove:
  "buffered (access_remove m tx) tx' g = (if tx' = tx then [] else buffered m tx' g)"
  by (simp add: buffered_def access_find_remove)

lemma apply_collection_updates:
  assumes "apply_collection T order db m tx = Inr (r, db', m', tr)"
  shows "m' = m \<or> m' = access_remove m tx"
  using assms by (auto simp: apply_collection_def split: option.splits sum.splits)

lemma all_applicable_apply_collection:
  assumes "apply_collection T order db m tx = Inr (r, db', m', tr)"
    and "\<forall>tx'. all_applicable T' m tx'"
  shows "\<forall>tx'. all_applicable T' m' tx'"
  using apply_collection_updates [OF assms(1)] assms(2)
  by (auto simp: all_applicable_def buffered_access_remove)

lemma well_buffered_Apply:
  assumes "Apply vorder eorder s tx = Inr (r, s', tr)" and "well_buffered s"
  shows "well_buffered s'"
proof -
  from assms(1) obtain vr db1 vu vtr er db2 eu etr where
    v: "apply_collection VertexAccessor vorder (graph_db s) (vertex_updates s) tx
          = Inr (vr, db1, vu, vtr)"
    and e: "apply_collection EdgeAccessor eorder db1 (edge_updates s) tx
          = Inr (er, db2, eu, etr)"
    and s': "s' = \<lparr> graph_db = db2, vertex_updates = vu, edge_updates = eu \<rparr>"
    by (rule Apply_split)
  show ?thesis
    using all_applicable_apply_collection [OF v, of VertexAccessor]
      all_applicable_apply_collection [OF e, of EdgeAccessor] assms(2) s'
    by (simp add: well_buffered_def)
qed

lemma access_find_filter:
  "access_find (filter (\<lambda>kv. P (fst kv)) m) k = (if P k then access_find m k else None)"
  unfolding access_find_def by (induction m) auto

lemma well_buffered_ClearTransactionalCache:
  assumes "well_buffered s"
  shows "well_buffered (ClearTransactionalCache s oldest_active)"
proof -
  have b: "buffered (filter (\<lambda>kv. \<not> fst kv < oldest_active) m) tx g
             = (if tx < oldest_active then [] else buffered m tx g)" for m tx g
    using access_find_filter [of "\<lambda>k. \<not> k < oldest_active" m tx] by (simp add: buffered_def)
  show ?thesis
    using assms
    by (simp add: well_buffered_def all_applicable_def ClearTransactionalCache_def
          clear_loop_self b)
qed

lemma well_buffered_CreateVertexRpc:
  assumes "CreateVertexRpc s req = Inr (res, s')" and "well_buffered s"
  shows "well_buffered s'"
proof -
  obtain s'' where r: "CreateVertexRpc s req = Inr ((DONE, vertex_generator (graph_db s)), s'')"
    and b: "\<forall>tx g. buffered (vertex_updates s'') tx g = buffered (vertex_updates s) tx g"
    and e: "edge_updates s'' = edge_updates s"
    using CreateVertexRpc_ok [of s req] by blast
  have "s'' = s'" using r assms(1) by simp
  then show ?thesis
    using assms(2) b e by (simp add: well_buffered_def all_applicable_def)
qed

lemma well_buffered_CreateEdgeRpc:
  assumes "CreateEdgeRpc s data = Inr (res, s')" and "well_buffered s"
  shows "well_buffered s'"
proof -
  have ob: "obtainable VertexAccessor (graph_db s) (vertex_updates s) (ce_tx_id data) (ce_from data)
      \<and> (worker_id (ce_to data) = WorkerId (graph_db s)
         \<longrightarrow> obtainable VertexAccessor (graph_db s) (vertex_updates s) (ce_tx_id data)
               (gid (ce_to data)))"
    using assms(1) CreateEdgeRpc_cases [of s data] by (cases ?thesis) auto
  then obtain s'' where r: "CreateEdgeRpc s data = Inr ((DONE, edge_generator (graph_db s)), s'')"
    and be: "\<forall>tx g. buffered (edge_updates s'') tx g = buffered (edge_updates s) tx g"
    and bv: "\<forall>tx g. buffered (vertex_updates s'') tx g =
                 buffered (vertex_updates s) tx g
                   @ ((if tx = ce_tx_id data \<and> g = ce_from data
                      then [StateDelta_AddOutEdge (ce_tx_id data) (ce_from data) (ce_to data)
                              (Address (WorkerId (graph_db s)) (edge_generator (graph_db s)))
                              (ce_edge_type data)]
                      else [])
                   @ (if tx = ce_tx_id data
                         \<and> worker_id (ce_to data) = WorkerId (graph_db s)
                         \<and> g = gid (ce_to data)
                      then [StateDelta_AddInEdge (ce_tx_id data) (gid (ce_to data))
                              (Address (WorkerId (graph_db s)) (ce_from data))
                              (Address (WorkerId (graph_db s)) (edge_generator (graph_db s)))
                              (ce_edge_type data)]
                      else []))"
    using CreateEdgeRpc_cases [of s data] by auto
  have same: "s'' = s'" using r assms(1) by simp
  show ?thesis
  proof (rule well_buffered_buffered [OF assms(2)])
    show "\<forall>tx g. \<exists>ds. buffered (vertex_updates s') tx g = buffered (vertex_updates s) tx g @ ds
                    \<and> list_all (applicable VertexAccessor) ds"
      using bv same by (auto simp: applicable_factories)
    show "\<forall>tx g. \<exists>ds. buffered (edge_updates s') tx g = buffered (edge_updates s) tx g @ ds
                    \<and> list_all (applicable EdgeAccessor) ds"
      using be same by auto
  qed
qed

end
